theory Spec2Isabelle
  imports Main "HOL-Library.Product_Lexorder"
begin

section \<open>The bipartite graph of libDAI: \<^verbatim>\<open>include/dai/bipgraph.h\<close>\<close>

text \<open>
  A shallow embedding of class \<^verbatim>\<open>BipartiteGraph\<close>. Every member function takes the
  object as an argument and returns the updated object. Values of type \<^verbatim>\<open>size_t\<close> are
  natural numbers: the modelled functions only compare them, read vector sizes and add
  vector sizes, and a vector of \<open>n\<close> records occupies \<open>24 * n\<close> bytes of a 64-bit address
  space, so none of these additions wraps.

  The header checks its arguments with the \<^verbatim>\<open>assert\<close> macro of \<^verbatim>\<open><cassert>\<close>, in the
  accessors only inside \<^verbatim>\<open>#ifdef DAI_DEBUG\<close>. What an out-of-range call does therefore
  depends on two macros of the build, which are a parameter of the model.
\<close>

record build =
  DAI_DEBUG :: bool
  NDEBUG :: bool

text \<open>
  A failed assertion aborts the program; indexing a \<^verbatim>\<open>std::vector\<close> out of range with
  \<^verbatim>\<open>operator[]\<close> is undefined behaviour. Both are results of the model. The header
  itself never signals \<open>IndexOutOfRange\<close>: that is the error the specification names, and
  only the operations modelled from the specification (\<open>erase1\<close>, \<open>erase2\<close> and the
  traversal of \<open>isConnected\<close> and \<open>isTree\<close>) return it.
\<close>

datatype error = AssertionFailed | UndefinedBehaviour | IndexOutOfRange

text \<open>\<^verbatim>\<open>assert(c)\<close> outside any \<^verbatim>\<open>#ifdef\<close>: it fails when \<open>c\<close> is false, unless NDEBUG.\<close>

definition assert_fails :: "build \<Rightarrow> bool \<Rightarrow> bool" where
  "assert_fails b c = (\<not> NDEBUG b \<and> \<not> c)"

text \<open>\<^verbatim>\<open>assert(c)\<close> inside \<^verbatim>\<open>#ifdef DAI_DEBUG ... #endif\<close>.\<close>

definition debug_assert_fails :: "build \<Rightarrow> bool \<Rightarrow> bool" where
  "debug_assert_fails b c = (DAI_DEBUG b \<and> assert_fails b c)"

subsection \<open>Data\<close>

record Neighbor =
  iter :: nat
  node :: nat
  dual :: nat

type_synonym Neighbors = "Neighbor list"

type_synonym Edge = "nat \<times> nat"

text \<open>
  The private members \<^verbatim>\<open>_nb1\<close>, \<^verbatim>\<open>_nb2\<close>, \<^verbatim>\<open>_edge_indexed\<close>, \<^verbatim>\<open>_edges\<close> and \<^verbatim>\<open>_vv2e\<close>
  (an identifier cannot start with an underscore here, hence the prefix).
\<close>

record BipartiteGraph =
  m_nb1 :: "Neighbors list"
  m_nb2 :: "Neighbors list"
  m_edge_indexed :: bool
  m_edges :: "Edge list"
  m_vv2e :: "Edge \<rightharpoonup> nat"

text \<open>The default constructor.\<close>

definition BipartiteGraph_empty :: BipartiteGraph where
  "BipartiteGraph_empty =
     \<lparr>m_nb1 = [], m_nb2 = [], m_edge_indexed = False, m_edges = [], m_vv2e = Map.empty\<rparr>"

definition nr1 :: "BipartiteGraph \<Rightarrow> nat" where
  "nr1 g = length (m_nb1 g)"

definition nr2 :: "BipartiteGraph \<Rightarrow> nat" where
  "nr2 g = length (m_nb2 g)"

subsection \<open>Accessors\<close>

text \<open>
  \<^verbatim>\<open>nb1(i1)\<close> and \<^verbatim>\<open>nb2(i2)\<close>: the whole neighbour list (the const and the non-const
  overload have the same body).
\<close>

definition nb1 :: "build \<Rightarrow> BipartiteGraph \<Rightarrow> nat \<Rightarrow> error + Neighbors" where
  "nb1 b g i1 =
     (if debug_assert_fails b (i1 < length (m_nb1 g)) then Inl AssertionFailed
      else if i1 < length (m_nb1 g) then Inr (m_nb1 g ! i1)
      else Inl UndefinedBehaviour)"

definition nb2 :: "build \<Rightarrow> BipartiteGraph \<Rightarrow> nat \<Rightarrow> error + Neighbors" where
  "nb2 b g i2 =
     (if debug_assert_fails b (i2 < length (m_nb2 g)) then Inl AssertionFailed
      else if i2 < length (m_nb2 g) then Inr (m_nb2 g ! i2)
      else Inl UndefinedBehaviour)"

text \<open>\<^verbatim>\<open>nb1(i1, _i2)\<close> and \<^verbatim>\<open>nb2(i2, _i1)\<close>: one record, by its relative index.\<close>

definition nb1_at :: "build \<Rightarrow> BipartiteGraph \<Rightarrow> nat \<Rightarrow> nat \<Rightarrow> error + Neighbor" where
  "nb1_at b g i1 i2 =
     (if debug_assert_fails b (i1 < length (m_nb1 g)) then Inl AssertionFailed
      else if debug_assert_fails b (i2 < length (m_nb1 g ! i1)) then Inl AssertionFailed
      else if i1 < length (m_nb1 g) \<and> i2 < length (m_nb1 g ! i1) then Inr (m_nb1 g ! i1 ! i2)
      else Inl UndefinedBehaviour)"

definition nb2_at :: "build \<Rightarrow> BipartiteGraph \<Rightarrow> nat \<Rightarrow> nat \<Rightarrow> error + Neighbor" where
  "nb2_at b g i2 i1 =
     (if debug_assert_fails b (i2 < length (m_nb2 g)) then Inl AssertionFailed
      else if debug_assert_fails b (i1 < length (m_nb2 g ! i2)) then Inl AssertionFailed
      else if i2 < length (m_nb2 g) \<and> i1 < length (m_nb2 g ! i2) then Inr (m_nb2 g ! i2 ! i1)
      else Inl UndefinedBehaviour)"

text \<open>
  \<^verbatim>\<open>nrEdges()\<close>: the loop over \<open>i1 = 0, ..., nr1() - 1\<close> that adds \<^verbatim>\<open>nb1(i1).size()\<close>
  to \<^verbatim>\<open>sum\<close> (here \<open>acc\<close>). It reads through the accessor, whose assertion is a branch here too.
\<close>

fun nrEdges_loop :: "build \<Rightarrow> BipartiteGraph \<Rightarrow> nat list \<Rightarrow> nat \<Rightarrow> error + nat" where
  "nrEdges_loop b g [] acc = Inr acc"
| "nrEdges_loop b g (i1 # rest) acc =
     (case nb1 b g i1 of
        Inl e \<Rightarrow> Inl e
      | Inr nbs \<Rightarrow> nrEdges_loop b g rest (acc + length nbs))"

definition nrEdges :: "build \<Rightarrow> BipartiteGraph \<Rightarrow> error + nat" where
  "nrEdges b g = nrEdges_loop b g [0..<nr1 g] 0"

subsection \<open>Adding nodes\<close>

text \<open>
  \<^verbatim>\<open>add1()\<close> and \<^verbatim>\<open>add2()\<close> are declared \<^verbatim>\<open>void\<close>. A call is modelled as the pair of
  what it returns and the updated object, so that the absence of a result is explicit.
\<close>

datatype retval = Void | Value nat

definition add1 :: "BipartiteGraph \<Rightarrow> retval \<times> BipartiteGraph" where
  "add1 g = (Void, g\<lparr>m_nb1 := m_nb1 g @ [[]]\<rparr>)"

definition add2 :: "BipartiteGraph \<Rightarrow> retval \<times> BipartiteGraph" where
  "add2 g = (Void, g\<lparr>m_nb2 := m_nb2 g @ [[]]\<rparr>)"

subsection \<open>Adding and erasing edges\<close>

text \<open>
  The duplicate check of \<^verbatim>\<open>addEdge\<close>: the \<^verbatim>\<open>foreach\<close> over \<^verbatim>\<open>nb1(n1)\<close> that stops at
  the first record whose node (the record converts to its \<open>node\<close> member) equals \<open>n2\<close>.
\<close>

fun edge_exists :: "Neighbors \<Rightarrow> nat \<Rightarrow> bool" where
  "edge_exists [] n2 = False"
| "edge_exists (nb # nbs) n2 = (if node nb = n2 then True else edge_exists nbs n2)"

text \<open>
  The body of \<^verbatim>\<open>if( !exists )\<close>: both records are built from the sizes before either
  \<^verbatim>\<open>push_back\<close>. \<^verbatim>\<open>_nb1[n1]\<close> and \<^verbatim>\<open>_nb2[n2]\<close> are unchecked vector accesses.
\<close>

definition addEdge_push :: "BipartiteGraph \<Rightarrow> nat \<Rightarrow> nat \<Rightarrow> error + BipartiteGraph" where
  "addEdge_push g n1 n2 =
     (if n1 < length (m_nb1 g) \<and> n2 < length (m_nb2 g) then
        (let nb_1 = \<lparr>iter = length (m_nb1 g ! n1), node = n2, dual = length (m_nb2 g ! n2)\<rparr>;
             nb_2 = \<lparr>iter = dual nb_1, node = n1, dual = iter nb_1\<rparr>
         in Inr (g\<lparr>m_nb1 := (m_nb1 g)[n1 := m_nb1 g ! n1 @ [nb_1]],
                   m_nb2 := (m_nb2 g)[n2 := m_nb2 g ! n2 @ [nb_2]]\<rparr>))
      else Inl UndefinedBehaviour)"

definition addEdge :: "build \<Rightarrow> BipartiteGraph \<Rightarrow> nat \<Rightarrow> nat \<Rightarrow> bool \<Rightarrow> error + BipartiteGraph" where
  "addEdge b g n1 n2 check =
     (if assert_fails b (n1 < nr1 g) then Inl AssertionFailed
      else if assert_fails b (n2 < nr2 g) then Inl AssertionFailed
      else if check then
        (case nb1 b g n1 of
           Inl e \<Rightarrow> Inl e
         | Inr nbs \<Rightarrow> if edge_exists nbs n2 then Inr g else addEdge_push g n1 n2)
      else addEdge_push g n1 n2)"

text \<open>
  The two loops of \<^verbatim>\<open>eraseEdge\<close>: each walks one list and erases the first record
  whose node is the given one, then breaks. Nothing else is written.
\<close>

fun erase_first :: "Neighbors \<Rightarrow> nat \<Rightarrow> Neighbors" where
  "erase_first [] n = []"
| "erase_first (i # rest) n = (if node i = n then rest else i # erase_first rest n)"

definition eraseEdge :: "build \<Rightarrow> BipartiteGraph \<Rightarrow> nat \<Rightarrow> nat \<Rightarrow> error + BipartiteGraph" where
  "eraseEdge b g n1 n2 =
     (if assert_fails b (n1 < nr1 g) then Inl AssertionFailed
      else if assert_fails b (n2 < nr2 g) then Inl AssertionFailed
      else if \<not> n1 < length (m_nb1 g) then Inl UndefinedBehaviour
      else if \<not> n2 < length (m_nb2 g) then Inl UndefinedBehaviour
      else Inr (g\<lparr>m_nb1 := (m_nb1 g)[n1 := erase_first (m_nb1 g ! n1) n2],
                  m_nb2 := (m_nb2 g)[n2 := erase_first (m_nb2 g ! n2) n1]\<rparr>))"

subsection \<open>Bulk construction\<close>

text \<open>
  \<^verbatim>\<open>construct\<close> clears and resizes both vectors and adds the edges in order; the third
  argument of \<^verbatim>\<open>addEdge\<close> is \<open>true\<close> under \<^verbatim>\<open>DAI_DEBUG\<close> and \<open>false\<close> otherwise.
\<close>

fun construct_loop :: "build \<Rightarrow> BipartiteGraph \<Rightarrow> Edge list \<Rightarrow> error + BipartiteGraph" where
  "construct_loop b g [] = Inr g"
| "construct_loop b g (e # es) =
     (case addEdge b g (fst e) (snd e) (DAI_DEBUG b) of
        Inl err \<Rightarrow> Inl err
      | Inr g' \<Rightarrow> construct_loop b g' es)"

definition construct :: "build \<Rightarrow> BipartiteGraph \<Rightarrow> nat \<Rightarrow> nat \<Rightarrow> Edge list \<Rightarrow> error + BipartiteGraph" where
  "construct b g n1 n2 es =
     construct_loop b (g\<lparr>m_nb1 := replicate n1 [], m_nb2 := replicate n2 []\<rparr>) es"

text \<open>The constructor from a range of edges.\<close>

definition BipartiteGraph_range :: "build \<Rightarrow> nat \<Rightarrow> nat \<Rightarrow> Edge list \<Rightarrow> error + BipartiteGraph" where
  "BipartiteGraph_range b n1 n2 es =
     construct b \<lparr>m_nb1 = replicate n1 [], m_nb2 = replicate n2 [], m_edge_indexed = False,
                  m_edges = [], m_vv2e = Map.empty\<rparr> n1 n2 es"

subsection \<open>Adding a node together with its neighbours\<close>

text \<open>
  \<^verbatim>\<open>add1(begin, end, sizeHint)\<close>: the loop over the given nodes of type 2. Each round
  asserts \<^verbatim>\<open>*it < nr2()\<close>, reads \<^verbatim>\<open>nb2(*it).size()\<close> through the accessor, appends one
  record to the new list and one to \<^verbatim>\<open>nb2(*it)\<close>. \<^verbatim>\<open>sizeHint\<close> only reserves memory.
\<close>

fun add1_loop ::
  "build \<Rightarrow> BipartiteGraph \<Rightarrow> nat list \<Rightarrow> Neighbors \<Rightarrow> nat \<Rightarrow> error + BipartiteGraph \<times> Neighbors"
where
  "add1_loop b g [] nbs1new it = Inr (g, nbs1new)"
| "add1_loop b g (n # rest) nbs1new it =
     (if assert_fails b (n < nr2 g) then Inl AssertionFailed
      else case nb2 b g n of
        Inl e \<Rightarrow> Inl e
      | Inr nbs \<Rightarrow>
          (let nb1new = \<lparr>iter = it, node = n, dual = length nbs\<rparr>;
               nb2new = \<lparr>iter = length nbs, node = nr1 g, dual = it\<rparr>
           in add1_loop b (g\<lparr>m_nb2 := (m_nb2 g)[n := nbs @ [nb2new]]\<rparr>) rest
                (nbs1new @ [nb1new]) (Suc it)))"

definition add1_range :: "build \<Rightarrow> BipartiteGraph \<Rightarrow> nat list \<Rightarrow> error + BipartiteGraph" where
  "add1_range b g ns =
     (case add1_loop b g ns [] 0 of
        Inl e \<Rightarrow> Inl e
      | Inr (g', nbs1new) \<Rightarrow> Inr (g'\<lparr>m_nb1 := m_nb1 g' @ [nbs1new]\<rparr>))"

fun add2_loop ::
  "build \<Rightarrow> BipartiteGraph \<Rightarrow> nat list \<Rightarrow> Neighbors \<Rightarrow> nat \<Rightarrow> error + BipartiteGraph \<times> Neighbors"
where
  "add2_loop b g [] nbs2new it = Inr (g, nbs2new)"
| "add2_loop b g (n # rest) nbs2new it =
     (if assert_fails b (n < nr1 g) then Inl AssertionFailed
      else case nb1 b g n of
        Inl e \<Rightarrow> Inl e
      | Inr nbs \<Rightarrow>
          (let nb2new = \<lparr>iter = it, node = n, dual = length nbs\<rparr>;
               nb1new = \<lparr>iter = length nbs, node = nr2 g, dual = it\<rparr>
           in add2_loop b (g\<lparr>m_nb1 := (m_nb1 g)[n := nbs @ [nb1new]]\<rparr>) rest
                (nbs2new @ [nb2new]) (Suc it)))"

definition add2_range :: "build \<Rightarrow> BipartiteGraph \<Rightarrow> nat list \<Rightarrow> error + BipartiteGraph" where
  "add2_range b g ns =
     (case add2_loop b g ns [] 0 of
        Inl e \<Rightarrow> Inl e
      | Inr (g', nbs2new) \<Rightarrow> Inr (g'\<lparr>m_nb2 := m_nb2 g' @ [nbs2new]\<rparr>))"

subsection \<open>The backwards compatibility layer\<close>

text \<open>
  \<^verbatim>\<open>indexEdges()\<close>: collects \<open>(i, n2.node)\<close> for every record of every list of \<^verbatim>\<open>_nb1\<close>,
  sorts the pairs (lexicographically, as \<^verbatim>\<open>std::pair\<close> compares), numbers them in that
  order and sets \<^verbatim>\<open>_edge_indexed\<close>. The warning it prints is not modelled.
\<close>

fun indexEdges_collect :: "nat \<Rightarrow> Neighbors list \<Rightarrow> Edge list" where
  "indexEdges_collect i [] = []"
| "indexEdges_collect i (nb1s # rest) =
     map (\<lambda>n2. (i, node n2)) nb1s @ indexEdges_collect (Suc i) rest"

fun indexEdges_number :: "nat \<Rightarrow> Edge list \<Rightarrow> (Edge \<rightharpoonup> nat) \<Rightarrow> (Edge \<rightharpoonup> nat)" where
  "indexEdges_number i [] m = m"
| "indexEdges_number i (e # es) m = indexEdges_number (Suc i) es (m(e \<mapsto> i))"

definition indexEdges :: "BipartiteGraph \<Rightarrow> BipartiteGraph" where
  "indexEdges g =
     (let es = sort (indexEdges_collect 0 (m_nb1 g))
      in g\<lparr>m_edges := es, m_vv2e := indexEdges_number 0 es Map.empty, m_edge_indexed := True\<rparr>)"

definition edge :: "build \<Rightarrow> BipartiteGraph \<Rightarrow> nat \<Rightarrow> error + Edge" where
  "edge b g e =
     (if assert_fails b (m_edge_indexed g) then Inl AssertionFailed
      else if e < length (m_edges g) then Inr (m_edges g ! e)
      else Inl UndefinedBehaviour)"

definition edges :: "BipartiteGraph \<Rightarrow> Edge list" where
  "edges g = m_edges g"

definition VV2E :: "build \<Rightarrow> BipartiteGraph \<Rightarrow> nat \<Rightarrow> nat \<Rightarrow> error + nat" where
  "VV2E b g n1 n2 =
     (if assert_fails b (m_edge_indexed g) then Inl AssertionFailed
      else case m_vv2e g (n1, n2) of
        None \<Rightarrow> if assert_fails b False then Inl AssertionFailed else Inl UndefinedBehaviour
      | Some i \<Rightarrow> Inr i)"

definition nr_edges :: "build \<Rightarrow> BipartiteGraph \<Rightarrow> error + nat" where
  "nr_edges b g =
     (if assert_fails b (m_edge_indexed g) then Inl AssertionFailed
      else Inr (length (m_edges g)))"

subsection \<open>Removing nodes\<close>

text \<open>
  Modelled from the spec: \<^verbatim>\<open>erase1\<close> and \<^verbatim>\<open>erase2\<close> are declared in the header and
  defined in a source file that is not part of these sources. The specification describes
  them (section 4.1, \<open>removeNode\<close>): the call removes every incident edge, then deletes the
  node's slot and decrements the \<open>node\<close> field of every record of the other type whose
  target index exceeds the removed one; a node id beyond the current count is
  \<open>IndexOutOfRange\<close> (section 7). Removing an incident edge is \<open>eraseEdge\<close>, which the
  header defines, so the model calls it once for every record of the removed node's list.
\<close>

text \<open>
  Modelled from the spec: the first step of \<open>erase1\<close> (missing from the sources),
  "removes every incident edge": one \<open>eraseEdge(n1, n2)\<close> for every given \<open>n2\<close>.
\<close>

fun erase_incident1 :: "build \<Rightarrow> BipartiteGraph \<Rightarrow> nat \<Rightarrow> nat list \<Rightarrow> error + BipartiteGraph" where
  "erase_incident1 b g n1 [] = Inr g"
| "erase_incident1 b g n1 (n2 # rest) =
     (case eraseEdge b g n1 n2 of
        Inl e \<Rightarrow> Inl e
      | Inr g' \<Rightarrow> erase_incident1 b g' n1 rest)"

text \<open>
  Modelled from the spec: the first step of \<open>erase2\<close> (missing from the sources),
  one \<open>eraseEdge(n1, n2)\<close> for every given \<open>n1\<close>.
\<close>

fun erase_incident2 :: "build \<Rightarrow> BipartiteGraph \<Rightarrow> nat \<Rightarrow> nat list \<Rightarrow> error + BipartiteGraph" where
  "erase_incident2 b g n2 [] = Inr g"
| "erase_incident2 b g n2 (n1 # rest) =
     (case eraseEdge b g n1 n2 of
        Inl e \<Rightarrow> Inl e
      | Inr g' \<Rightarrow> erase_incident2 b g' n2 rest)"

text \<open>
  Modelled from the spec: the renumbering step of \<open>erase1\<close> and \<open>erase2\<close> (missing from
  the sources), "decrements the node field of every opposite-type record whose target
  index exceeds id".
\<close>

definition shift_down :: "nat \<Rightarrow> Neighbor \<Rightarrow> Neighbor" where
  "shift_down n r = (if n < node r then r\<lparr>node := node r - 1\<rparr> else r)"

text \<open>
  Modelled from the spec: the step of \<open>erase1\<close> and \<open>erase2\<close> (missing from the sources)
  that "deletes the node's slot".
\<close>

definition delete_slot :: "nat \<Rightarrow> 'a list \<Rightarrow> 'a list" where
  "delete_slot n xs = take n xs @ drop (Suc n) xs"

text \<open>
  Modelled from the spec: \<open>erase1(n1)\<close>, declared in the header and defined in a missing
  file (\<open>removeNode\<close> for type 1).
\<close>

definition erase1 :: "build \<Rightarrow> BipartiteGraph \<Rightarrow> nat \<Rightarrow> error + BipartiteGraph" where
  "erase1 b g n1 =
     (if \<not> n1 < nr1 g then Inl IndexOutOfRange
      else case erase_incident1 b g n1 (map node (m_nb1 g ! n1)) of
        Inl e \<Rightarrow> Inl e
      | Inr g' \<Rightarrow>
          Inr (g'\<lparr>m_nb1 := delete_slot n1 (m_nb1 g'),
                   m_nb2 := map (map (shift_down n1)) (m_nb2 g')\<rparr>))"

text \<open>
  Modelled from the spec: \<open>erase2(n2)\<close>, declared in the header and defined in a missing
  file (\<open>removeNode\<close> for type 2).
\<close>

definition erase2 :: "build \<Rightarrow> BipartiteGraph \<Rightarrow> nat \<Rightarrow> error + BipartiteGraph" where
  "erase2 b g n2 =
     (if \<not> n2 < nr2 g then Inl IndexOutOfRange
      else case erase_incident2 b g n2 (map node (m_nb2 g ! n2)) of
        Inl e \<Rightarrow> Inl e
      | Inr g' \<Rightarrow>
          Inr (g'\<lparr>m_nb2 := delete_slot n2 (m_nb2 g'),
                   m_nb1 := map (map (shift_down n2)) (m_nb1 g')\<rparr>))"

subsection \<open>Sequences of operations\<close>

text \<open>
  The mutating member functions as a datatype, and the run of a list of calls on an
  object; the run stops at the first call that fails. A state is reachable when a run
  from the default-constructed object ends in it (the constructor from a range of edges
  is \<open>Construct\<close> as the first call).
\<close>

datatype call =
    Add1
  | Add2
  | Add1Range "nat list"
  | Add2Range "nat list"
  | AddEdge nat nat bool
  | EraseEdge nat nat
  | Erase1 nat
  | Erase2 nat
  | Construct nat nat "Edge list"
  | IndexEdges

fun step :: "build \<Rightarrow> BipartiteGraph \<Rightarrow> call \<Rightarrow> error + BipartiteGraph" where
  "step b g Add1 = Inr (snd (add1 g))"
| "step b g Add2 = Inr (snd (add2 g))"
| "step b g (Add1Range ns) = add1_range b g ns"
| "step b g (Add2Range ns) = add2_range b g ns"
| "step b g (AddEdge n1 n2 check) = addEdge b g n1 n2 check"
| "step b g (EraseEdge n1 n2) = eraseEdge b g n1 n2"
| "step b g (Erase1 n1) = erase1 b g n1"
| "step b g (Erase2 n2) = erase2 b g n2"
| "step b g (Construct n1 n2 es) = construct b g n1 n2 es"
| "step b g IndexEdges = Inr (indexEdges g)"

fun run :: "build \<Rightarrow> BipartiteGraph \<Rightarrow> call list \<Rightarrow> error + BipartiteGraph" where
  "run b g [] = Inr g"
| "run b g (c # cs) = (case step b g c of Inl e \<Rightarrow> Inl e | Inr g' \<Rightarrow> run b g' cs)"

definition reachable :: "build \<Rightarrow> BipartiteGraph \<Rightarrow> bool" where
  "reachable b g = (\<exists>cs. run b BipartiteGraph_empty cs = Inr g)"

subsection \<open>The dual cross-reference invariant\<close>

text \<open>
  The record at position \<open>p\<close> of node \<open>a\<close> is consistent when its \<open>iter\<close> is \<open>p\<close>, its
  \<open>node\<close> and \<open>dual\<close> name an existing record of the other type, and that record has
  \<open>node = a\<close> and \<open>dual = p\<close>. The invariant asks this of every record of both types.
\<close>

definition dual_ok :: "Neighbors list \<Rightarrow> Neighbors list \<Rightarrow> nat \<Rightarrow> nat \<Rightarrow> bool" where
  "dual_ok own other a p =
     (let r = own ! a ! p in
        iter r = p \<and> node r < length other \<and> dual r < length (other ! node r) \<and>
        node (other ! node r ! dual r) = a \<and> dual (other ! node r ! dual r) = p)"

definition dual_side :: "Neighbors list \<Rightarrow> Neighbors list \<Rightarrow> bool" where
  "dual_side own other =
     list_all (\<lambda>a. list_all (\<lambda>p. dual_ok own other a p) [0..<length (own ! a)])
       [0..<length own]"

definition dual_inv :: "BipartiteGraph \<Rightarrow> bool" where
  "dual_inv g = (dual_side (m_nb1 g) (m_nb2 g) \<and> dual_side (m_nb2 g) (m_nb1 g))"

subsection \<open>Edges seen from both sides\<close>

text \<open>
  The number of records of a list that name a given node, and the property that both
  sides agree on the edges: every record names an existing node of the other type, and
  node \<open>a\<close> has as many records naming \<open>c\<close> as node \<open>c\<close> has records naming \<open>a\<close>.
\<close>

definition count_node :: "Neighbors \<Rightarrow> nat \<Rightarrow> nat" where
  "count_node xs n = length (filter (\<lambda>r. node r = n) xs)"

definition nodes_valid :: "Neighbors list \<Rightarrow> nat \<Rightarrow> bool" where
  "nodes_valid xss n = list_all (list_all (\<lambda>r. node r < n)) xss"

definition counts_match :: "Neighbors list \<Rightarrow> Neighbors list \<Rightarrow> bool" where
  "counts_match own other =
     list_all (\<lambda>a. list_all (\<lambda>c. count_node (own ! a) c = count_node (other ! c) a)
       [0..<length other]) [0..<length own]"

definition matched :: "Neighbors list \<Rightarrow> Neighbors list \<Rightarrow> bool" where
  "matched own other =
     (nodes_valid own (length other) \<and> nodes_valid other (length own) \<and> counts_match own other)"

definition edges_match :: "BipartiteGraph \<Rightarrow> bool" where
  "edges_match g = matched (m_nb1 g) (m_nb2 g)"

text \<open>The members of the compatibility layer, as one value.\<close>

definition legacy :: "BipartiteGraph \<Rightarrow> bool \<times> Edge list \<times> (Edge \<rightharpoonup> nat)" where
  "legacy g = (m_edge_indexed g, m_edges g, m_vv2e g)"

subsection \<open>The example graph of the header\<close>

text \<open>
  The graph of the header's closing \<^verbatim>\<open>\example\<close> block: three nodes of type 1, two of
  type 2 and the edges 0--0, 1--0, 2--0, 1--1, 2--1, as \<^verbatim>\<open>construct\<close> builds it from the
  edges in this order.
\<close>

definition example_edges :: "Edge list" where
  "example_edges = [(0, 0), (1, 0), (2, 0), (1, 1), (2, 1)]"

definition example_graph :: BipartiteGraph where
  "example_graph =
     \<lparr>m_nb1 = [[\<lparr>iter = 0, node = 0, dual = 0\<rparr>],
               [\<lparr>iter = 0, node = 0, dual = 1\<rparr>, \<lparr>iter = 1, node = 1, dual = 0\<rparr>],
               [\<lparr>iter = 0, node = 0, dual = 2\<rparr>, \<lparr>iter = 1, node = 1, dual = 1\<rparr>]],
      m_nb2 = [[\<lparr>iter = 0, node = 0, dual = 0\<rparr>, \<lparr>iter = 1, node = 1, dual = 0\<rparr>,
                \<lparr>iter = 2, node = 2, dual = 0\<rparr>],
               [\<lparr>iter = 0, node = 1, dual = 1\<rparr>, \<lparr>iter = 1, node = 2, dual = 1\<rparr>]],
      m_edge_indexed = False, m_edges = [], m_vv2e = Map.empty\<rparr>"

text \<open>A build without \<^verbatim>\<open>DAI_DEBUG\<close> and without \<^verbatim>\<open>NDEBUG\<close>: no macro is defined.\<close>

definition plain_build :: build where
  "plain_build = \<lparr>DAI_DEBUG = False, NDEBUG = False\<rparr>"

subsection \<open>Connectivity and the tree test\<close>

text \<open>
  Modelled from the spec: \<^verbatim>\<open>isConnected\<close> and \<^verbatim>\<open>isTree\<close> are declared in the header and
  defined in a source file that is not part of these sources. The specification
  (section 4.1) describes \<open>isConnected\<close> as a breadth-first traversal over both node types
  as one graph, true iff every node is reached from an arbitrary start node, and true for
  the graph without nodes; and \<open>isTree\<close> as true iff the graph is connected and acyclic,
  where the cycle test expands a frontier level by level, alternating between the node
  types, and finds a cycle when a node is reached by more than one path, seen as a
  revisit while the frontier is expanded. It gives a second formulation of the tree
  test, "connected graph is a tree iff \<^verbatim>\<open>edgeCount() == nr1 + nr2 - 1\<close>", and requires that
  the two agree.

  A level of the traversal is a list of nodes of both types; the header keeps the two
  types apart in its \<^verbatim>\<open>levelType\<close> (\<open>ind1\<close>, \<open>ind2\<close>), here a node carries its type.
\<close>

type_synonym vertex = "nat + nat"

text \<open>
  Modelled from the spec: the nodes that the traversals of \<open>isConnected\<close> and \<open>isTree\<close>
  (both missing from the sources) range over, type 1 first.
\<close>

definition vertices :: "BipartiteGraph \<Rightarrow> vertex list" where
  "vertices g = map Inl [0..<nr1 g] @ map Inr [0..<nr2 g]"








subsection \<open>Counting the edges of a traversal\<close>




section \<open>Properties\<close>

subsection \<open>The scans\<close>

lemma edge_exists_iff: "edge_exists xs n \<longleftrightarrow> (\<exists>r\<in>set xs. node r = n)"
  by (induction xs) auto

lemma erase_first_no_match: "\<not> edge_exists xs n \<Longrightarrow> erase_first xs n = xs"
  by (induction xs) auto

lemma erase_first_match:
  "\<not> edge_exists pre n \<Longrightarrow> node r = n \<Longrightarrow> erase_first (pre @ r # post) n = pre @ post"
  by (induction pre) auto

lemma edge_exists_split:
  "edge_exists xs n \<Longrightarrow> \<exists>pre r post. xs = pre @ r # post \<and> node r = n \<and> \<not> edge_exists pre n"
proof (induction xs)
  case Nil
  then show ?case by simp
next
  case (Cons x xs)
  show ?case
  proof (cases "node x = n")
    case True
    then have "x # xs = [] @ x # xs \<and> node x = n \<and> \<not> edge_exists [] n" by simp
    then show ?thesis by blast
  next
    case False
    with Cons obtain pre r post where
      "xs = pre @ r # post" "node r = n" "\<not> edge_exists pre n" by auto
    with False have "x # xs = (x # pre) @ r # post \<and> node r = n \<and> \<not> edge_exists (x # pre) n"
      by simp
    then show ?thesis by blast
  qed
qed

subsection \<open>Reading the invariant\<close>

lemma dual_side_iff:
  "dual_side own other \<longleftrightarrow> (\<forall>a<length own. \<forall>p<length (own ! a). dual_ok own other a p)"
  by (auto simp: dual_side_def list_all_iff)

text \<open>Under the invariant every record has a reciprocal record: an edge is in both lists.\<close>

lemma dual_side_back:
  assumes "dual_side own other" "a < length own" "r \<in> set (own ! a)"
  shows "node r < length other \<and> edge_exists (other ! node r) a"
proof -
  from assms(3) obtain p where p: "p < length (own ! a)" "own ! a ! p = r"
    by (auto simp: in_set_conv_nth)
  with assms(1,2) have ok: "dual_ok own other a p"
    by (simp add: dual_side_iff)
  then have "node r < length other" "dual r < length (other ! node r)"
    "node (other ! node r ! dual r) = a"
    using p by (simp_all add: dual_ok_def Let_def)
  then show ?thesis
    by (auto simp: edge_exists_iff intro: nth_mem)
qed

lemma dual_inv_example: "dual_inv example_graph"
  by code_simp

subsection \<open>The edge count\<close>

text \<open>\<open>nrEdges()\<close> never fails, and returns the sum of the lengths of the lists of type 1.\<close>

lemma nrEdges_loop_sum:
  "\<forall>i\<in>set ns. i < length (m_nb1 g) \<Longrightarrow>
   nrEdges_loop b g ns acc = Inr (acc + sum_list (map (\<lambda>i. length (m_nb1 g ! i)) ns))"
proof (induction ns arbitrary: acc)
  case Nil
  then show ?case by simp
next
  case (Cons n ns)
  from Cons.prems have n: "n < length (m_nb1 g)" and rest: "\<forall>i\<in>set ns. i < length (m_nb1 g)"
    by simp_all
  from n have acc: "nb1 b g n = Inr (m_nb1 g ! n)"
    by (simp add: nb1_def debug_assert_fails_def assert_fails_def)
  have "nrEdges_loop b g (n # ns) acc = nrEdges_loop b g ns (acc + length (m_nb1 g ! n))"
    by (simp add: acc)
  also have "\<dots> = Inr (acc + length (m_nb1 g ! n) + sum_list (map (\<lambda>i. length (m_nb1 g ! i)) ns))"
    by (rule Cons.IH[OF rest])
  also have "\<dots> = Inr (acc + sum_list (map (\<lambda>i. length (m_nb1 g ! i)) (n # ns)))"
    by simp
  finally show ?case .
qed

lemma nrEdges_sum: "nrEdges b g = Inr (sum_list (map length (m_nb1 g)))"
proof -
  have "map (\<lambda>i. length (m_nb1 g ! i)) [0..<length (m_nb1 g)] =
      map length (map (\<lambda>i. m_nb1 g ! i) [0..<length (m_nb1 g)])"
    by (simp add: comp_def)
  also have "\<dots> = map length (m_nb1 g)"
    by (simp only: map_nth)
  finally show ?thesis
    by (simp add: nrEdges_def nr1_def nrEdges_loop_sum)
qed


subsection \<open>Appending a pair of reciprocal records\<close>

lemma dual_side_push:
  assumes inv: "dual_side own other" and a0: "a0 < length own" and c0: "c0 < length other"
  shows "dual_side
     (own[a0 := own ! a0 @ [\<lparr>iter = length (own ! a0), node = c0, dual = length (other ! c0)\<rparr>]])
     (other[c0 := other ! c0 @ [\<lparr>iter = length (other ! c0), node = a0, dual = length (own ! a0)\<rparr>]])"
proof -
  let ?r = "\<lparr>iter = length (own ! a0), node = c0, dual = length (other ! c0)\<rparr>"
  let ?q = "\<lparr>iter = length (other ! c0), node = a0, dual = length (own ! a0)\<rparr>"
  let ?own = "own[a0 := own ! a0 @ [?r]]" and ?other = "other[c0 := other ! c0 @ [?q]]"
  have old: "?other ! c ! d = other ! c ! d" if "c < length other" "d < length (other ! c)" for c d
    using that by (cases "c = c0") (simp_all add: nth_append)
  have len: "length (other ! c) \<le> length (?other ! c)" if "c < length other" for c
    using that by (cases "c = c0") simp_all
  have "dual_ok ?own ?other a p" if a: "a < length ?own" and p: "p < length (?own ! a)" for a p
  proof (cases "a = a0 \<and> p = length (own ! a0)")
    case True
    then show ?thesis
      using a0 c0 by (simp add: dual_ok_def)
  next
    case False
    with a p a0 have p': "p < length (own ! a)" and r: "?own ! a ! p = own ! a ! p"
      by (cases "a = a0"; simp add: nth_append)+
    from a have a': "a < length own" by simp
    from inv a' p' have ok: "dual_ok own other a p"
      by (simp add: dual_side_iff)
    then have n: "node (own ! a ! p) < length other"
      and d: "dual (own ! a ! p) < length (other ! node (own ! a ! p))"
      by (simp_all add: dual_ok_def Let_def)
    from len[OF n] d have d': "dual (own ! a ! p) < length (?other ! node (own ! a ! p))"
      by simp
    show ?thesis
      using ok n d' old[OF n d] r unfolding dual_ok_def Let_def by simp
  qed
  then show ?thesis
    by (simp add: dual_side_iff)
qed

lemma addEdge_push_dual_inv:
  assumes "dual_inv g" "addEdge_push g n1 n2 = Inr g'"
  shows "dual_inv g'"
proof -
  from assms(2) have l: "n1 < length (m_nb1 g)" "n2 < length (m_nb2 g)"
    by (auto simp: addEdge_push_def split: if_splits)
  with assms(2) have g': "g' = g\<lparr>m_nb1 := (m_nb1 g)[n1 := m_nb1 g ! n1 @
        [\<lparr>iter = length (m_nb1 g ! n1), node = n2, dual = length (m_nb2 g ! n2)\<rparr>]],
      m_nb2 := (m_nb2 g)[n2 := m_nb2 g ! n2 @
        [\<lparr>iter = length (m_nb2 g ! n2), node = n1, dual = length (m_nb1 g ! n1)\<rparr>]]\<rparr>"
    by (simp add: addEdge_push_def Let_def)
  from assms(1) have s: "dual_side (m_nb1 g) (m_nb2 g)" "dual_side (m_nb2 g) (m_nb1 g)"
    by (simp_all add: dual_inv_def)
  show ?thesis
    unfolding g' dual_inv_def
    using dual_side_push[OF s(1) l] dual_side_push[OF s(2) l(2) l(1)] by simp
qed

subsection \<open>Adding an edge and erasing it again\<close>

text \<open>
  Claim C3. Let the graph satisfy the dual cross-reference invariant, let \<open>n1 < nr1()\<close> and
  \<open>n2 < nr2()\<close>, and let the edge \<open>(n1, n2)\<close> be absent. Then \<open>addEdge(n1, n2)\<close>, checked or
  unchecked, succeeds and makes both lists one record longer, and the following
  \<open>eraseEdge(n1, n2)\<close> succeeds and gives back the graph as it was before the \<open>addEdge\<close>:
  the same degrees of \<open>n1\<close> and \<open>n2\<close>, the invariant, and in fact every record.
\<close>

theorem addEdge_eraseEdge_roundtrip:
  assumes inv: "dual_inv g" and n1: "n1 < nr1 g" and n2: "n2 < nr2 g"
    and absent: "\<not> edge_exists (m_nb1 g ! n1) n2"
  shows "\<exists>g' g''. addEdge b g n1 n2 check = Inr g' \<and> eraseEdge b g' n1 n2 = Inr g'' \<and>
           length (m_nb1 g' ! n1) = Suc (length (m_nb1 g ! n1)) \<and>
           length (m_nb2 g' ! n2) = Suc (length (m_nb2 g ! n2)) \<and>
           length (m_nb1 g'' ! n1) = length (m_nb1 g ! n1) \<and>
           length (m_nb2 g'' ! n2) = length (m_nb2 g ! n2) \<and>
           dual_inv g'' \<and> g'' = g"
proof -
  let ?nb_1 = "\<lparr>iter = length (m_nb1 g ! n1), node = n2, dual = length (m_nb2 g ! n2)\<rparr>"
  let ?nb_2 = "\<lparr>iter = length (m_nb2 g ! n2), node = n1, dual = length (m_nb1 g ! n1)\<rparr>"
  let ?g' = "g\<lparr>m_nb1 := (m_nb1 g)[n1 := m_nb1 g ! n1 @ [?nb_1]],
               m_nb2 := (m_nb2 g)[n2 := m_nb2 g ! n2 @ [?nb_2]]\<rparr>"
  have l1: "n1 < length (m_nb1 g)" and l2: "n2 < length (m_nb2 g)"
    using n1 n2 by (simp_all add: nr1_def nr2_def)
  have add: "addEdge b g n1 n2 check = Inr ?g'"
    using l1 l2 absent
    by (simp add: addEdge_def addEdge_push_def assert_fails_def debug_assert_fails_def
        nb1_def nr1_def nr2_def Let_def)
  have absent2: "\<not> edge_exists (m_nb2 g ! n2) n1"
  proof
    assume "edge_exists (m_nb2 g ! n2) n1"
    then obtain r where r: "r \<in> set (m_nb2 g ! n2)" "node r = n1"
      by (auto simp: edge_exists_iff)
    from inv have "dual_side (m_nb2 g) (m_nb1 g)" by (simp add: dual_inv_def)
    from dual_side_back[OF this l2 r(1)] r(2) absent show False by simp
  qed
  have e1: "erase_first (m_nb1 g ! n1 @ [?nb_1]) n2 = m_nb1 g ! n1"
    using erase_first_match[OF absent, of ?nb_1 "[]"] by simp
  have e2: "erase_first (m_nb2 g ! n2 @ [?nb_2]) n1 = m_nb2 g ! n2"
    using erase_first_match[OF absent2, of ?nb_2 "[]"] by simp
  have erase: "eraseEdge b ?g' n1 n2 = Inr g"
    using l1 l2 e1 e2
    by (simp add: eraseEdge_def assert_fails_def nr1_def nr2_def)
  show ?thesis
    using add erase inv l1 l2 by simp
qed

text \<open>The round trip on the example graph, with the absent edge between node 0 and node 1.\<close>

theorem addEdge_eraseEdge_roundtrip_witness:
  "dual_inv example_graph \<and> 0 < nr1 example_graph \<and> 1 < nr2 example_graph \<and>
   \<not> edge_exists (m_nb1 example_graph ! 0) 1 \<and>
   (\<exists>g'. addEdge plain_build example_graph 0 1 True = Inr g' \<and>
          length (m_nb1 g' ! 0) = 2 \<and> length (m_nb2 g' ! 1) = 3 \<and>
          eraseEdge plain_build g' 0 1 = Inr example_graph)"
proof -
  have h1: "0 < nr1 example_graph" and h2: "1 < nr2 example_graph"
    and h3: "\<not> edge_exists (m_nb1 example_graph ! 0) 1"
    and d1: "length (m_nb1 example_graph ! 0) = 1" and d2: "length (m_nb2 example_graph ! 1) = 2"
    by (simp_all add: example_graph_def nr1_def nr2_def)
  from addEdge_eraseEdge_roundtrip[OF dual_inv_example h1 h2 h3, of plain_build True]
  show ?thesis
    using dual_inv_example h1 h2 h3 d1 d2 by auto
qed

subsection \<open>What eraseEdge writes\<close>

lemma erase_first_cases:
  "(\<not> edge_exists xs n \<and> erase_first xs n = xs) \<or>
   (\<exists>pre r post. xs = pre @ r # post \<and> node r = n \<and> \<not> edge_exists pre n \<and>
      erase_first xs n = pre @ post)"
proof (cases "edge_exists xs n")
  case False
  then show ?thesis by (simp add: erase_first_no_match)
next
  case True
  from edge_exists_split[OF this] obtain pre r post where
    s: "xs = pre @ r # post" "node r = n" "\<not> edge_exists pre n" by blast
  then have "erase_first xs n = pre @ post" by (simp add: erase_first_match)
  with s show ?thesis by blast
qed

text \<open>
  Claim C10. For \<open>n1 < nr1()\<close> and \<open>n2 < nr2()\<close>, \<open>eraseEdge(n1, n2)\<close> succeeds and changes
  at most the list of node \<open>n1\<close> of type 1 and the list of node \<open>n2\<close> of type 2: each of the
  two lists either has no record with the matching node and stays as it is, or loses
  exactly the first such record. Every other list of either type, \<open>nr1()\<close>, \<open>nr2()\<close> and
  the members of the compatibility layer are unchanged.
\<close>

theorem eraseEdge_frame:
  assumes n1: "n1 < nr1 g" and n2: "n2 < nr2 g"
  shows "\<exists>g'. eraseEdge b g n1 n2 = Inr g' \<and> nr1 g' = nr1 g \<and> nr2 g' = nr2 g \<and>
     (\<forall>i<nr1 g. i \<noteq> n1 \<longrightarrow> m_nb1 g' ! i = m_nb1 g ! i) \<and>
     (\<forall>j<nr2 g. j \<noteq> n2 \<longrightarrow> m_nb2 g' ! j = m_nb2 g ! j) \<and>
     ((\<not> edge_exists (m_nb1 g ! n1) n2 \<and> m_nb1 g' ! n1 = m_nb1 g ! n1) \<or>
      (\<exists>pre r post. m_nb1 g ! n1 = pre @ r # post \<and> node r = n2 \<and> \<not> edge_exists pre n2 \<and>
         m_nb1 g' ! n1 = pre @ post)) \<and>
     ((\<not> edge_exists (m_nb2 g ! n2) n1 \<and> m_nb2 g' ! n2 = m_nb2 g ! n2) \<or>
      (\<exists>pre r post. m_nb2 g ! n2 = pre @ r # post \<and> node r = n1 \<and> \<not> edge_exists pre n1 \<and>
         m_nb2 g' ! n2 = pre @ post)) \<and>
     m_edge_indexed g' = m_edge_indexed g \<and> m_edges g' = m_edges g \<and> m_vv2e g' = m_vv2e g"
proof -
  let ?g' = "g\<lparr>m_nb1 := (m_nb1 g)[n1 := erase_first (m_nb1 g ! n1) n2],
               m_nb2 := (m_nb2 g)[n2 := erase_first (m_nb2 g ! n2) n1]\<rparr>"
  have l1: "n1 < length (m_nb1 g)" and l2: "n2 < length (m_nb2 g)"
    using n1 n2 by (simp_all add: nr1_def nr2_def)
  have res: "eraseEdge b g n1 n2 = Inr ?g'"
    using l1 l2 by (simp add: eraseEdge_def assert_fails_def nr1_def nr2_def)
  have sizes: "nr1 ?g' = nr1 g" "nr2 ?g' = nr2 g"
    by (simp_all add: nr1_def nr2_def)
  have others: "\<forall>i<nr1 g. i \<noteq> n1 \<longrightarrow> m_nb1 ?g' ! i = m_nb1 g ! i"
    "\<forall>j<nr2 g. j \<noteq> n2 \<longrightarrow> m_nb2 ?g' ! j = m_nb2 g ! j"
    by simp_all
  have at1: "m_nb1 ?g' ! n1 = erase_first (m_nb1 g ! n1) n2"
    and at2: "m_nb2 ?g' ! n2 = erase_first (m_nb2 g ! n2) n1"
    using l1 l2 by simp_all
  have legacy: "m_edge_indexed ?g' = m_edge_indexed g" "m_edges ?g' = m_edges g"
    "m_vv2e ?g' = m_vv2e g"
    by simp_all
  have c1: "(\<not> edge_exists (m_nb1 g ! n1) n2 \<and> m_nb1 ?g' ! n1 = m_nb1 g ! n1) \<or>
      (\<exists>pre r post. m_nb1 g ! n1 = pre @ r # post \<and> node r = n2 \<and> \<not> edge_exists pre n2 \<and>
         m_nb1 ?g' ! n1 = pre @ post)"
    using erase_first_cases[of "m_nb1 g ! n1" n2] by (simp only: at1)
  have c2: "(\<not> edge_exists (m_nb2 g ! n2) n1 \<and> m_nb2 ?g' ! n2 = m_nb2 g ! n2) \<or>
      (\<exists>pre r post. m_nb2 g ! n2 = pre @ r # post \<and> node r = n1 \<and> \<not> edge_exists pre n1 \<and>
         m_nb2 ?g' ! n2 = pre @ post)"
    using erase_first_cases[of "m_nb2 g ! n2" n1] by (simp only: at2)
  show ?thesis
    using res sizes others legacy c1 c2 by (intro exI[of _ ?g']) blast
qed

text \<open>Erasing the edge between node 1 of type 1 and node 0 of type 2 of the example graph.\<close>

theorem eraseEdge_frame_witness:
  "1 < nr1 example_graph \<and> 0 < nr2 example_graph \<and>
   (\<exists>g'. eraseEdge plain_build example_graph 1 0 = Inr g' \<and> nr1 g' = 3 \<and> nr2 g' = 2 \<and>
      m_nb1 g' ! 0 = m_nb1 example_graph ! 0 \<and> m_nb1 g' ! 2 = m_nb1 example_graph ! 2 \<and>
      m_nb2 g' ! 1 = m_nb2 example_graph ! 1 \<and>
      m_nb1 g' ! 1 = [\<lparr>iter = 1, node = 1, dual = 0\<rparr>] \<and>
      m_nb2 g' ! 0 = [\<lparr>iter = 0, node = 0, dual = 0\<rparr>, \<lparr>iter = 2, node = 2, dual = 0\<rparr>])"
proof -
  have h1: "1 < nr1 example_graph" and h2: "0 < nr2 example_graph"
    by (simp_all add: example_graph_def nr1_def nr2_def)
  from eraseEdge_frame[OF h1 h2, of plain_build]
  obtain g' where g': "eraseEdge plain_build example_graph 1 0 = Inr g'"
    "nr1 g' = nr1 example_graph" "nr2 g' = nr2 example_graph"
    "\<forall>i<nr1 example_graph. i \<noteq> 1 \<longrightarrow> m_nb1 g' ! i = m_nb1 example_graph ! i"
    "\<forall>j<nr2 example_graph. j \<noteq> 0 \<longrightarrow> m_nb2 g' ! j = m_nb2 example_graph ! j"
    by blast
  have n: "nr1 example_graph = 3" "nr2 example_graph = 2"
    by (simp_all add: example_graph_def nr1_def nr2_def)
  from g'(4) n have a: "m_nb1 g' ! 0 = m_nb1 example_graph ! 0" "m_nb1 g' ! 2 = m_nb1 example_graph ! 2"
    by simp_all
  from g'(5) n have c: "m_nb2 g' ! 1 = m_nb2 example_graph ! 1"
    by simp
  from g'(1) have e: "m_nb1 g' ! 1 = [\<lparr>iter = 1, node = 1, dual = 0\<rparr>]"
    "m_nb2 g' ! 0 = [\<lparr>iter = 0, node = 0, dual = 0\<rparr>, \<lparr>iter = 2, node = 2, dual = 0\<rparr>]"
    by (auto simp: eraseEdge_def assert_fails_def plain_build_def example_graph_def nr1_def nr2_def)
  show ?thesis
    using h1 h2 g'(1,2,3) n a c e by simp
qed

subsection \<open>Appending a node without neighbours\<close>

text \<open>
  Claim C8, as the header has it. \<open>add1()\<close> increases \<open>nr1()\<close> by one and leaves \<open>nr2()\<close>
  and all existing lists as they are; the new node, whose id is the value of \<open>nr1()\<close>
  before the call, has an empty neighbour list; the call returns nothing (it is
  \<^verbatim>\<open>void\<close>). \<open>add2()\<close> does the same for type 2.
\<close>

theorem add_node_void:
  "fst (add1 g) = Void \<and> nr1 (snd (add1 g)) = Suc (nr1 g) \<and> nr2 (snd (add1 g)) = nr2 g \<and>
   m_nb1 (snd (add1 g)) ! nr1 g = [] \<and> take (nr1 g) (m_nb1 (snd (add1 g))) = m_nb1 g \<and>
   m_nb2 (snd (add1 g)) = m_nb2 g \<and>
   fst (add2 g) = Void \<and> nr2 (snd (add2 g)) = Suc (nr2 g) \<and> nr1 (snd (add2 g)) = nr1 g \<and>
   m_nb2 (snd (add2 g)) ! nr2 g = [] \<and> take (nr2 g) (m_nb2 (snd (add2 g))) = m_nb2 g \<and>
   m_nb1 (snd (add2 g)) = m_nb1 g"
  by (simp add: add1_def add2_def nr1_def nr2_def)

text \<open>
  The claim's last part, that the call returns the new node's id, does not hold: on the
  empty graph the id of the new node is 0 and the result of the call is not that value.
\<close>

theorem add1_returns_no_id:
  "fst (add1 BipartiteGraph_empty) \<noteq> Value (nr1 BipartiteGraph_empty) \<and>
   fst (add2 BipartiteGraph_empty) \<noteq> Value (nr2 BipartiteGraph_empty)"
  by (simp add: add1_def add2_def)

subsection \<open>eraseEdge and the invariant\<close>

text \<open>
  Claim C2 asks that \<open>eraseEdge\<close> on a graph with the invariant leaves the invariant in
  place, by decrementing the \<open>iter\<close> of every record behind the erased one and the \<open>dual\<close>
  of its reciprocal record. The header's \<open>eraseEdge\<close> only erases. On the example graph,
  which satisfies the invariant and has the edge between node 1 of type 1 and node 0 of
  type 2, the call leaves the record of node 1 behind the erased one with \<open>iter = 1\<close> at
  position 0, and the result does not satisfy the invariant. The degrees are as expected
  (one record left for node 1 of type 1, two for node 0 of type 2).
\<close>

theorem eraseEdge_breaks_example:
  "dual_inv example_graph \<and> edge_exists (m_nb1 example_graph ! 1) 0 \<and>
   eraseEdge b example_graph 1 0 =
     Inr (example_graph\<lparr>
       m_nb1 := [[\<lparr>iter = 0, node = 0, dual = 0\<rparr>],
                 [\<lparr>iter = 1, node = 1, dual = 0\<rparr>],
                 [\<lparr>iter = 0, node = 0, dual = 2\<rparr>, \<lparr>iter = 1, node = 1, dual = 1\<rparr>]],
       m_nb2 := [[\<lparr>iter = 0, node = 0, dual = 0\<rparr>, \<lparr>iter = 2, node = 2, dual = 0\<rparr>],
                 [\<lparr>iter = 0, node = 1, dual = 1\<rparr>, \<lparr>iter = 1, node = 2, dual = 1\<rparr>]]\<rparr>) \<and>
   \<not> dual_inv (example_graph\<lparr>
       m_nb1 := [[\<lparr>iter = 0, node = 0, dual = 0\<rparr>],
                 [\<lparr>iter = 1, node = 1, dual = 0\<rparr>],
                 [\<lparr>iter = 0, node = 0, dual = 2\<rparr>, \<lparr>iter = 1, node = 1, dual = 1\<rparr>]],
       m_nb2 := [[\<lparr>iter = 0, node = 0, dual = 0\<rparr>, \<lparr>iter = 2, node = 2, dual = 0\<rparr>],
                 [\<lparr>iter = 0, node = 1, dual = 1\<rparr>, \<lparr>iter = 1, node = 2, dual = 1\<rparr>]]\<rparr>)"
proof -
  have e: "edge_exists (m_nb1 example_graph ! 1) 0"
    by (simp add: example_graph_def)
  have r: "eraseEdge b example_graph 1 0 =
     Inr (example_graph\<lparr>
       m_nb1 := [[\<lparr>iter = 0, node = 0, dual = 0\<rparr>],
                 [\<lparr>iter = 1, node = 1, dual = 0\<rparr>],
                 [\<lparr>iter = 0, node = 0, dual = 2\<rparr>, \<lparr>iter = 1, node = 1, dual = 1\<rparr>]],
       m_nb2 := [[\<lparr>iter = 0, node = 0, dual = 0\<rparr>, \<lparr>iter = 2, node = 2, dual = 0\<rparr>],
                 [\<lparr>iter = 0, node = 1, dual = 1\<rparr>, \<lparr>iter = 1, node = 2, dual = 1\<rparr>]]\<rparr>)"
    by (simp add: eraseEdge_def assert_fails_def example_graph_def nr1_def nr2_def)
  have n: "\<not> dual_inv (example_graph\<lparr>
       m_nb1 := [[\<lparr>iter = 0, node = 0, dual = 0\<rparr>],
                 [\<lparr>iter = 1, node = 1, dual = 0\<rparr>],
                 [\<lparr>iter = 0, node = 0, dual = 2\<rparr>, \<lparr>iter = 1, node = 1, dual = 1\<rparr>]],
       m_nb2 := [[\<lparr>iter = 0, node = 0, dual = 0\<rparr>, \<lparr>iter = 2, node = 2, dual = 0\<rparr>],
                 [\<lparr>iter = 0, node = 1, dual = 1\<rparr>, \<lparr>iter = 1, node = 2, dual = 1\<rparr>]]\<rparr>)"
    by code_simp
  show ?thesis using dual_inv_example e r n by simp
qed

text \<open>
  Claim C1 asks the invariant of every state reached from the empty graph. The state
  reached by \<open>add1(); add2(); add2(); addEdge(0,0); addEdge(0,1); eraseEdge(0,0)\<close>, in any
  build, does not satisfy it: the only record of node 0 of type 1 has \<open>iter = 1\<close>, and its
  reciprocal record has \<open>dual = 1\<close>, a position that no longer exists.
\<close>

theorem reachable_state_without_invariant:
  "run b BipartiteGraph_empty
      [Add1, Add2, Add2, AddEdge 0 0 True, AddEdge 0 1 True, EraseEdge 0 0] =
     Inr (BipartiteGraph_empty\<lparr>m_nb1 := [[\<lparr>iter = 1, node = 1, dual = 0\<rparr>]],
                               m_nb2 := [[], [\<lparr>iter = 0, node = 0, dual = 1\<rparr>]]\<rparr>) \<and>
   \<not> dual_inv (BipartiteGraph_empty\<lparr>m_nb1 := [[\<lparr>iter = 1, node = 1, dual = 0\<rparr>]],
                               m_nb2 := [[], [\<lparr>iter = 0, node = 0, dual = 1\<rparr>]]\<rparr>)"
proof -
  have r: "run b BipartiteGraph_empty
      [Add1, Add2, Add2, AddEdge 0 0 True, AddEdge 0 1 True, EraseEdge 0 0] =
     Inr (BipartiteGraph_empty\<lparr>m_nb1 := [[\<lparr>iter = 1, node = 1, dual = 0\<rparr>]],
                               m_nb2 := [[], [\<lparr>iter = 0, node = 0, dual = 1\<rparr>]]\<rparr>)"
    by (simp add: add1_def add2_def addEdge_def addEdge_push_def eraseEdge_def nb1_def
        assert_fails_def debug_assert_fails_def BipartiteGraph_empty_def nr1_def nr2_def Let_def)
  have n: "\<not> dual_inv (BipartiteGraph_empty\<lparr>m_nb1 := [[\<lparr>iter = 1, node = 1, dual = 0\<rparr>]],
                               m_nb2 := [[], [\<lparr>iter = 0, node = 0, dual = 1\<rparr>]]\<rparr>)"
    by code_simp
  show ?thesis using r n by simp
qed

subsection \<open>What addEdge and construct do\<close>

lemma addEdge_push_Inr:
  "n1 < nr1 g \<Longrightarrow> n2 < nr2 g \<Longrightarrow>
   addEdge_push g n1 n2 =
     Inr (g\<lparr>m_nb1 := (m_nb1 g)[n1 := m_nb1 g ! n1 @
               [\<lparr>iter = length (m_nb1 g ! n1), node = n2, dual = length (m_nb2 g ! n2)\<rparr>]],
             m_nb2 := (m_nb2 g)[n2 := m_nb2 g ! n2 @
               [\<lparr>iter = length (m_nb2 g ! n2), node = n1, dual = length (m_nb1 g ! n1)\<rparr>]]\<rparr>)"
  by (simp add: addEdge_push_def nr1_def nr2_def Let_def)

lemma addEdge_push_frame:
  assumes "addEdge_push g n1 n2 = Inr g'"
  shows "nr1 g' = nr1 g \<and> nr2 g' = nr2 g \<and> legacy g' = legacy g"
  using assms by (auto simp: addEdge_push_def nr1_def nr2_def legacy_def Let_def split: if_splits)

lemma addEdge_unchecked: "n1 < nr1 g \<Longrightarrow> n2 < nr2 g \<Longrightarrow> addEdge b g n1 n2 False = addEdge_push g n1 n2"
  by (simp add: addEdge_def assert_fails_def)

lemma addEdge_result:
  assumes "addEdge b g n1 n2 check = Inr g'"
  shows "g' = g \<or> addEdge_push g n1 n2 = Inr g'"
  using assms by (auto simp: addEdge_def nb1_def split: if_splits)

lemma addEdge_frame:
  assumes "addEdge b g n1 n2 check = Inr g'"
  shows "nr1 g' = nr1 g \<and> nr2 g' = nr2 g \<and> legacy g' = legacy g"
  using addEdge_result[OF assms] addEdge_push_frame by blast

lemma addEdge_in_range:
  assumes "n1 < nr1 g" "n2 < nr2 g"
  shows "\<exists>g'. addEdge b g n1 n2 check = Inr g'"
  using assms
  by (simp add: addEdge_def addEdge_push_def nb1_def assert_fails_def debug_assert_fails_def
      nr1_def nr2_def Let_def)

lemma addEdge_asserts:
  assumes "\<not> NDEBUG b" "nr1 g \<le> n1 \<or> nr2 g \<le> n2"
  shows "addEdge b g n1 n2 check = Inl AssertionFailed"
  using assms by (auto simp: addEdge_def assert_fails_def)

lemma eraseEdge_asserts:
  assumes "\<not> NDEBUG b" "nr1 g \<le> n1 \<or> nr2 g \<le> n2"
  shows "eraseEdge b g n1 n2 = Inl AssertionFailed"
  using assms by (auto simp: eraseEdge_def assert_fails_def)

lemma construct_loop_asserts:
  assumes "\<not> NDEBUG b" "\<exists>e\<in>set es. nr1 g \<le> fst e \<or> nr2 g \<le> snd e"
  shows "construct_loop b g es = Inl AssertionFailed"
  using assms(2)
proof (induction es arbitrary: g)
  case Nil
  then show ?case by simp
next
  case (Cons e es)
  show ?case
  proof (cases "nr1 g \<le> fst e \<or> nr2 g \<le> snd e")
    case True
    then show ?thesis
      by (simp add: addEdge_asserts[OF assms(1)])
  next
    case False
    then have r: "fst e < nr1 g" "snd e < nr2 g" by simp_all
    from addEdge_in_range[OF r] obtain g' where
      g': "addEdge b g (fst e) (snd e) (DAI_DEBUG b) = Inr g'" by blast
    from addEdge_frame[OF g'] have sz: "nr1 g' = nr1 g" "nr2 g' = nr2 g" by simp_all
    from Cons.prems False have "\<exists>e\<in>set es. nr1 g' \<le> fst e \<or> nr2 g' \<le> snd e"
      by (auto simp: sz)
    from Cons.IH[OF this] g' show ?thesis by simp
  qed
qed

lemma edge_count_push:
  assumes "n < length xs"
  shows "sum_list (map length (xs[n := xs ! n @ [r]])) = Suc (sum_list (map length xs))"
proof -
  have "sum_list (map length (xs[n := xs ! n @ [r]])) =
      sum_list ((map length xs)[n := Suc (length (xs ! n))])"
    by (simp add: map_update)
  also have "\<dots> = sum_list (map length xs) + Suc (length (xs ! n)) - (map length xs) ! n"
    using assms by (simp add: sum_list_update)
  also have "\<dots> = Suc (sum_list (map length xs))"
    using assms by simp
  finally show ?thesis .
qed

lemma construct_loop_unchecked:
  assumes "\<not> DAI_DEBUG b" "\<forall>e\<in>set es. fst e < nr1 g \<and> snd e < nr2 g"
  shows "\<exists>g'. construct_loop b g es = Inr g' \<and> nr1 g' = nr1 g \<and> nr2 g' = nr2 g \<and>
           sum_list (map length (m_nb1 g')) = sum_list (map length (m_nb1 g)) + length es \<and>
           (dual_inv g \<longrightarrow> dual_inv g')"
  using assms(2)
proof (induction es arbitrary: g)
  case Nil
  then show ?case by simp
next
  case (Cons e es)
  then have r: "fst e < nr1 g" "snd e < nr2 g" by simp_all
  let ?g1 = "g\<lparr>m_nb1 := (m_nb1 g)[fst e := m_nb1 g ! fst e @
               [\<lparr>iter = length (m_nb1 g ! fst e), node = snd e, dual = length (m_nb2 g ! snd e)\<rparr>]],
             m_nb2 := (m_nb2 g)[snd e := m_nb2 g ! snd e @
               [\<lparr>iter = length (m_nb2 g ! snd e), node = fst e, dual = length (m_nb1 g ! fst e)\<rparr>]]\<rparr>"
  have push: "addEdge_push g (fst e) (snd e) = Inr ?g1"
    by (rule addEdge_push_Inr[OF r])
  have add: "addEdge b g (fst e) (snd e) (DAI_DEBUG b) = Inr ?g1"
    using assms(1) addEdge_unchecked[OF r, of b] push by simp
  have sz: "nr1 ?g1 = nr1 g" "nr2 ?g1 = nr2 g"
    by (simp_all add: nr1_def nr2_def)
  have cnt: "sum_list (map length (m_nb1 ?g1)) = Suc (sum_list (map length (m_nb1 g)))"
    using r(1) by (simp add: edge_count_push nr1_def)
  have inv: "dual_inv g \<longrightarrow> dual_inv ?g1"
    using addEdge_push_dual_inv[OF _ push] by blast
  from Cons.prems have "\<forall>e\<in>set es. fst e < nr1 ?g1 \<and> snd e < nr2 ?g1"
    by (simp add: sz)
  from Cons.IH[OF this] obtain g' where g': "construct_loop b ?g1 es = Inr g'"
    "nr1 g' = nr1 ?g1" "nr2 g' = nr2 ?g1"
    "sum_list (map length (m_nb1 g')) = sum_list (map length (m_nb1 ?g1)) + length es"
    "dual_inv ?g1 \<longrightarrow> dual_inv g'"
    by blast
  have "construct_loop b g (e # es) = Inr g'"
    using add g'(1) by simp
  moreover have "sum_list (map length (m_nb1 g')) = sum_list (map length (m_nb1 g)) + length (e # es)"
    using g'(4) cnt by simp
  moreover have "nr1 g' = nr1 g" "nr2 g' = nr2 g"
    using g'(2,3) sz by simp_all
  moreover have "dual_inv g \<longrightarrow> dual_inv g'"
    using g'(5) inv by blast
  ultimately show ?case
    by blast
qed

lemma dual_inv_no_edges: "dual_inv (g\<lparr>m_nb1 := replicate k1 [], m_nb2 := replicate k2 []\<rparr>)"
  by (simp add: dual_inv_def dual_side_iff)

lemma edge_count_no_edges: "sum_list (map length (replicate k [])) = 0"
  by (induction k) simp_all

text \<open>The members of the compatibility layer are not written by \<open>construct\<close>.\<close>

lemma construct_loop_legacy:
  "construct_loop b g es = Inr g' \<Longrightarrow> legacy g' = legacy g"
proof (induction es arbitrary: g)
  case Nil
  then show ?case by simp
next
  case (Cons e es)
  then obtain g1 where g1: "addEdge b g (fst e) (snd e) (DAI_DEBUG b) = Inr g1"
    "construct_loop b g1 es = Inr g'"
    by (auto split: sum.splits)
  from Cons.IH[OF g1(2)] addEdge_frame[OF g1(1)] show ?case by simp
qed

lemma construct_legacy:
  "construct b g k1 k2 es = Inr g' \<Longrightarrow> legacy g' = legacy g"
  using construct_loop_legacy[of b "g\<lparr>m_nb1 := replicate k1 [], m_nb2 := replicate k2 []\<rparr>" es g']
  by (simp add: construct_def legacy_def)

text \<open>
  The loop of \<open>construct\<close> is the sequence of \<open>addEdge\<close> calls on its input, and each
  call appends at the end of the two lists concerned.
\<close>

lemma construct_loop_run:
  "construct_loop b g es = run b g (map (\<lambda>e. AddEdge (fst e) (snd e) (DAI_DEBUG b)) es)"
  by (induction es arbitrary: g) (simp_all split: sum.splits)

lemma construct_loop_snoc:
  "construct_loop b g (es @ [e]) =
     (case construct_loop b g es of
        Inl err \<Rightarrow> Inl err
      | Inr g' \<Rightarrow> addEdge b g' (fst e) (snd e) (DAI_DEBUG b))"
  by (induction es arbitrary: g) (simp_all split: sum.splits)

lemma filter_take_less:
  assumes "k < length es" "P (es ! k)"
  shows "length (filter P (take k es)) < length (filter P es)"
proof -
  from assms(1) have "es = take k es @ es ! k # drop (Suc k) es"
    by (simp add: id_take_nth_drop)
  then have "filter P es = filter P (take k es) @ filter P (es ! k # drop (Suc k) es)"
    by (metis filter_append)
  with assms(2) show ?thesis by simp
qed

lemma construct_loop_records:
  assumes nd: "\<not> DAI_DEBUG b" and r: "\<forall>e\<in>set es. fst e < k1 \<and> snd e < k2"
  shows "\<exists>g'. construct_loop b (g0\<lparr>m_nb1 := replicate k1 [], m_nb2 := replicate k2 []\<rparr>) es = Inr g' \<and>
     nr1 g' = k1 \<and> nr2 g' = k2 \<and>
     (\<forall>i<k1. length (m_nb1 g' ! i) = length (filter (\<lambda>x. fst x = i) es)) \<and>
     (\<forall>j<k2. length (m_nb2 g' ! j) = length (filter (\<lambda>x. snd x = j) es)) \<and>
     (\<forall>k<length es.
        m_nb1 g' ! fst (es ! k) ! length (filter (\<lambda>x. fst x = fst (es ! k)) (take k es)) =
          \<lparr>iter = length (filter (\<lambda>x. fst x = fst (es ! k)) (take k es)), node = snd (es ! k),
           dual = length (filter (\<lambda>x. snd x = snd (es ! k)) (take k es))\<rparr> \<and>
        m_nb2 g' ! snd (es ! k) ! length (filter (\<lambda>x. snd x = snd (es ! k)) (take k es)) =
          \<lparr>iter = length (filter (\<lambda>x. snd x = snd (es ! k)) (take k es)), node = fst (es ! k),
           dual = length (filter (\<lambda>x. fst x = fst (es ! k)) (take k es))\<rparr>)"
  using r
proof (induction es rule: rev_induct)
  case Nil
  then show ?case by (simp add: nr1_def nr2_def)
next
  case (snoc e es)
  let ?start = "g0\<lparr>m_nb1 := replicate k1 [], m_nb2 := replicate k2 []\<rparr>"
  from snoc.prems have e: "fst e < k1" "snd e < k2" and rest: "\<forall>e\<in>set es. fst e < k1 \<and> snd e < k2"
    by simp_all
  from snoc.IH[OF rest] obtain g' where g': "construct_loop b ?start es = Inr g'"
    and n: "nr1 g' = k1" "nr2 g' = k2"
    and l1: "\<forall>i<k1. length (m_nb1 g' ! i) = length (filter (\<lambda>x. fst x = i) es)"
    and l2: "\<forall>j<k2. length (m_nb2 g' ! j) = length (filter (\<lambda>x. snd x = j) es)"
    and rec: "\<forall>k<length es.
        m_nb1 g' ! fst (es ! k) ! length (filter (\<lambda>x. fst x = fst (es ! k)) (take k es)) =
          \<lparr>iter = length (filter (\<lambda>x. fst x = fst (es ! k)) (take k es)), node = snd (es ! k),
           dual = length (filter (\<lambda>x. snd x = snd (es ! k)) (take k es))\<rparr> \<and>
        m_nb2 g' ! snd (es ! k) ! length (filter (\<lambda>x. snd x = snd (es ! k)) (take k es)) =
          \<lparr>iter = length (filter (\<lambda>x. snd x = snd (es ! k)) (take k es)), node = fst (es ! k),
           dual = length (filter (\<lambda>x. fst x = fst (es ! k)) (take k es))\<rparr>"
    by blast
  let ?r1 = "\<lparr>iter = length (m_nb1 g' ! fst e), node = snd e, dual = length (m_nb2 g' ! snd e)\<rparr>"
  let ?r2 = "\<lparr>iter = length (m_nb2 g' ! snd e), node = fst e, dual = length (m_nb1 g' ! fst e)\<rparr>"
  let ?g = "g'\<lparr>m_nb1 := (m_nb1 g')[fst e := m_nb1 g' ! fst e @ [?r1]],
               m_nb2 := (m_nb2 g')[snd e := m_nb2 g' ! snd e @ [?r2]]\<rparr>"
  have er: "fst e < nr1 g'" "snd e < nr2 g'" using e n by simp_all
  have add: "addEdge b g' (fst e) (snd e) (DAI_DEBUG b) = Inr ?g"
    using nd addEdge_unchecked[OF er, of b] addEdge_push_Inr[OF er] by simp
  have res: "construct_loop b ?start (es @ [e]) = Inr ?g"
    by (simp add: construct_loop_snoc g' add)
  have len: "length (m_nb1 g') = k1" "length (m_nb2 g') = k2"
    using n by (simp_all add: nr1_def nr2_def)
  have n': "nr1 ?g = k1" "nr2 ?g = k2"
    using n by (simp_all add: nr1_def nr2_def)
  have l1': "\<forall>i<k1. length (m_nb1 ?g ! i) = length (filter (\<lambda>x. fst x = i) (es @ [e]))"
    using l1 len by (auto simp: nth_list_update)
  have l2': "\<forall>j<k2. length (m_nb2 ?g ! j) = length (filter (\<lambda>x. snd x = j) (es @ [e]))"
    using l2 len by (auto simp: nth_list_update)
  have rec': "m_nb1 ?g ! fst ((es @ [e]) ! k) !
          length (filter (\<lambda>x. fst x = fst ((es @ [e]) ! k)) (take k (es @ [e]))) =
          \<lparr>iter = length (filter (\<lambda>x. fst x = fst ((es @ [e]) ! k)) (take k (es @ [e]))),
           node = snd ((es @ [e]) ! k),
           dual = length (filter (\<lambda>x. snd x = snd ((es @ [e]) ! k)) (take k (es @ [e])))\<rparr> \<and>
        m_nb2 ?g ! snd ((es @ [e]) ! k) !
          length (filter (\<lambda>x. snd x = snd ((es @ [e]) ! k)) (take k (es @ [e]))) =
          \<lparr>iter = length (filter (\<lambda>x. snd x = snd ((es @ [e]) ! k)) (take k (es @ [e]))),
           node = fst ((es @ [e]) ! k),
           dual = length (filter (\<lambda>x. fst x = fst ((es @ [e]) ! k)) (take k (es @ [e])))\<rparr>"
    if k: "k < length (es @ [e])" for k
  proof (cases "k < length es")
    case True
    let ?x = "es ! k"
    let ?p = "length (filter (\<lambda>x. fst x = fst ?x) (take k es))"
    let ?q = "length (filter (\<lambda>x. snd x = snd ?x) (take k es))"
    from True rest have x: "fst ?x < k1" "snd ?x < k2" by simp_all
    have p: "?p < length (m_nb1 g' ! fst ?x)"
      using l1 x(1) filter_take_less[OF True, of "\<lambda>y. fst y = fst ?x"] by simp
    have q: "?q < length (m_nb2 g' ! snd ?x)"
      using l2 x(2) filter_take_less[OF True, of "\<lambda>y. snd y = snd ?x"] by simp
    have a: "m_nb1 ?g ! fst ?x ! ?p = m_nb1 g' ! fst ?x ! ?p"
      using p x(1) len by (cases "fst ?x = fst e") (simp_all add: nth_append)
    have c: "m_nb2 ?g ! snd ?x ! ?q = m_nb2 g' ! snd ?x ! ?q"
      using q x(2) len by (cases "snd ?x = snd e") (simp_all add: nth_append)
    from rec True have "m_nb1 g' ! fst ?x ! ?p = \<lparr>iter = ?p, node = snd ?x, dual = ?q\<rparr>"
      "m_nb2 g' ! snd ?x ! ?q = \<lparr>iter = ?q, node = fst ?x, dual = ?p\<rparr>"
      by simp_all
    with a c True show ?thesis by (simp add: nth_append)
  next
    case False
    with k have k: "k = length es" by simp
    have "m_nb1 ?g ! fst e ! length (m_nb1 g' ! fst e) = ?r1"
      "m_nb2 ?g ! snd e ! length (m_nb2 g' ! snd e) = ?r2"
      using e len by simp_all
    with l1 l2 e show ?thesis by (simp add: k)
  qed
  from res n' l1' l2' rec' show ?case by blast
qed

text \<open>
  Claim C9. Unchecked insertion does not look for the edge. For \<open>n1 < nr1()\<close> and
  \<open>n2 < nr2()\<close>, whether or not the graph already has the edge, \<open>addEdge(n1, n2, false)\<close>
  appends one record to the list of \<open>n1\<close> and the reciprocal record to the list of \<open>n2\<close>,
  each naming the other's position, leaves every other member as it was, \<open>nrEdges()\<close>
  grows by one, and the invariant is kept.
  In a build without \<^verbatim>\<open>DAI_DEBUG\<close>, \<open>construct\<close> inserts every edge of its input, in
  order and unchecked: for an input with all ids in range, repeated edges included, it
  succeeds, and its result is the result of \<open>addEdge(n1, n2, false)\<close> on each input edge in
  turn, starting from \<open>k1\<close> and \<open>k2\<close> empty lists. In that result the list of a node
  has one record for each input edge naming that node; the edge at position \<open>k\<close> of the
  input owns, in the list of each of its two ends, the record whose position is the
  number of earlier input edges at that end, and the two records name each other. The
  members of the compatibility layer are untouched, \<open>nrEdges()\<close> is the length of the
  input, and the result satisfies the invariant.
\<close>

theorem unchecked_insertion_keeps_duplicates:
  "(n1 < nr1 g \<and> n2 < nr2 g \<longrightarrow>
      (\<exists>g' k. addEdge b g n1 n2 False = Inr g' \<and>
         m_nb1 g' = (m_nb1 g)[n1 := m_nb1 g ! n1 @
           [\<lparr>iter = length (m_nb1 g ! n1), node = n2, dual = length (m_nb2 g ! n2)\<rparr>]] \<and>
         m_nb2 g' = (m_nb2 g)[n2 := m_nb2 g ! n2 @
           [\<lparr>iter = length (m_nb2 g ! n2), node = n1, dual = length (m_nb1 g ! n1)\<rparr>]] \<and>
         legacy g' = legacy g \<and>
         nrEdges b g = Inr k \<and> nrEdges b g' = Inr (Suc k) \<and>
         (dual_inv g \<longrightarrow> dual_inv g'))) \<and>
   (\<not> DAI_DEBUG b \<and> (\<forall>e\<in>set es. fst e < k1 \<and> snd e < k2) \<longrightarrow>
      (\<exists>g'. construct b g0 k1 k2 es = Inr g' \<and> nr1 g' = k1 \<and> nr2 g' = k2 \<and>
         nrEdges b g' = Inr (length es) \<and> dual_inv g' \<and> legacy g' = legacy g0 \<and>
         run b (g0\<lparr>m_nb1 := replicate k1 [], m_nb2 := replicate k2 []\<rparr>)
           (map (\<lambda>e. AddEdge (fst e) (snd e) False) es) = Inr g' \<and>
         (\<forall>i<k1. length (m_nb1 g' ! i) = length (filter (\<lambda>x. fst x = i) es)) \<and>
         (\<forall>j<k2. length (m_nb2 g' ! j) = length (filter (\<lambda>x. snd x = j) es)) \<and>
         (\<forall>k<length es.
            m_nb1 g' ! fst (es ! k) ! length (filter (\<lambda>x. fst x = fst (es ! k)) (take k es)) =
              \<lparr>iter = length (filter (\<lambda>x. fst x = fst (es ! k)) (take k es)), node = snd (es ! k),
               dual = length (filter (\<lambda>x. snd x = snd (es ! k)) (take k es))\<rparr> \<and>
            m_nb2 g' ! snd (es ! k) ! length (filter (\<lambda>x. snd x = snd (es ! k)) (take k es)) =
              \<lparr>iter = length (filter (\<lambda>x. snd x = snd (es ! k)) (take k es)), node = fst (es ! k),
               dual = length (filter (\<lambda>x. fst x = fst (es ! k)) (take k es))\<rparr>)))"
proof (intro conjI impI)
  assume r: "n1 < nr1 g \<and> n2 < nr2 g"
  let ?g' = "g\<lparr>m_nb1 := (m_nb1 g)[n1 := m_nb1 g ! n1 @
               [\<lparr>iter = length (m_nb1 g ! n1), node = n2, dual = length (m_nb2 g ! n2)\<rparr>]],
             m_nb2 := (m_nb2 g)[n2 := m_nb2 g ! n2 @
               [\<lparr>iter = length (m_nb2 g ! n2), node = n1, dual = length (m_nb1 g ! n1)\<rparr>]]\<rparr>"
  from r have push: "addEdge_push g n1 n2 = Inr ?g'"
    by (simp add: addEdge_push_Inr)
  with r have add: "addEdge b g n1 n2 False = Inr ?g'"
    by (simp add: addEdge_unchecked)
  have cnt: "nrEdges b ?g' = Inr (Suc (sum_list (map length (m_nb1 g))))"
    using r by (simp add: nrEdges_sum edge_count_push nr1_def)
  have inv: "dual_inv g \<longrightarrow> dual_inv ?g'"
    using addEdge_push_dual_inv[OF _ push] by blast
  have leg: "legacy ?g' = legacy g"
    by (simp add: legacy_def)
  show "\<exists>g' k. addEdge b g n1 n2 False = Inr g' \<and>
         m_nb1 g' = (m_nb1 g)[n1 := m_nb1 g ! n1 @
           [\<lparr>iter = length (m_nb1 g ! n1), node = n2, dual = length (m_nb2 g ! n2)\<rparr>]] \<and>
         m_nb2 g' = (m_nb2 g)[n2 := m_nb2 g ! n2 @
           [\<lparr>iter = length (m_nb2 g ! n2), node = n1, dual = length (m_nb1 g ! n1)\<rparr>]] \<and>
         legacy g' = legacy g \<and>
         nrEdges b g = Inr k \<and> nrEdges b g' = Inr (Suc k) \<and>
         (dual_inv g \<longrightarrow> dual_inv g')"
    using add cnt inv leg nrEdges_sum[of b g]
    by (intro exI[of _ ?g'] exI[of _ "sum_list (map length (m_nb1 g))"]) simp
next
  assume h: "\<not> DAI_DEBUG b \<and> (\<forall>e\<in>set es. fst e < k1 \<and> snd e < k2)"
  let ?g = "g0\<lparr>m_nb1 := replicate k1 [], m_nb2 := replicate k2 []\<rparr>"
  have sz: "nr1 ?g = k1" "nr2 ?g = k2" by (simp_all add: nr1_def nr2_def)
  from h have nd: "\<not> DAI_DEBUG b" and rng: "\<forall>e\<in>set es. fst e < k1 \<and> snd e < k2"
    by simp_all
  from rng have "\<forall>e\<in>set es. fst e < nr1 ?g \<and> snd e < nr2 ?g" by (simp add: sz)
  from construct_loop_unchecked[OF nd this] obtain g' where
    g': "construct_loop b ?g es = Inr g'" "nr1 g' = nr1 ?g" "nr2 g' = nr2 ?g"
    "sum_list (map length (m_nb1 g')) = sum_list (map length (m_nb1 ?g)) + length es"
    "dual_inv ?g \<longrightarrow> dual_inv g'"
    by blast
  from g'(4) have "sum_list (map length (m_nb1 g')) = length es"
    by (simp add: edge_count_no_edges)
  then have cnt: "nrEdges b g' = Inr (length es)" by (simp add: nrEdges_sum)
  have inv: "dual_inv g'" using g'(5) dual_inv_no_edges by blast
  have c: "construct b g0 k1 k2 es = Inr g'"
    using g'(1) by (simp add: construct_def)
  have leg: "legacy g' = legacy g0"
    using construct_legacy[OF c] .
  have rn: "run b ?g (map (\<lambda>e. AddEdge (fst e) (snd e) False) es) = Inr g'"
    using g'(1) nd by (simp add: construct_loop_run)
  from construct_loop_records[OF nd rng, of g0] g'(1)
  have recs: "(\<forall>i<k1. length (m_nb1 g' ! i) = length (filter (\<lambda>x. fst x = i) es)) \<and>
     (\<forall>j<k2. length (m_nb2 g' ! j) = length (filter (\<lambda>x. snd x = j) es)) \<and>
     (\<forall>k<length es.
        m_nb1 g' ! fst (es ! k) ! length (filter (\<lambda>x. fst x = fst (es ! k)) (take k es)) =
          \<lparr>iter = length (filter (\<lambda>x. fst x = fst (es ! k)) (take k es)), node = snd (es ! k),
           dual = length (filter (\<lambda>x. snd x = snd (es ! k)) (take k es))\<rparr> \<and>
        m_nb2 g' ! snd (es ! k) ! length (filter (\<lambda>x. snd x = snd (es ! k)) (take k es)) =
          \<lparr>iter = length (filter (\<lambda>x. snd x = snd (es ! k)) (take k es)), node = fst (es ! k),
           dual = length (filter (\<lambda>x. fst x = fst (es ! k)) (take k es))\<rparr>)"
    by auto
  show "\<exists>g'. construct b g0 k1 k2 es = Inr g' \<and> nr1 g' = k1 \<and> nr2 g' = k2 \<and>
         nrEdges b g' = Inr (length es) \<and> dual_inv g' \<and> legacy g' = legacy g0 \<and>
         run b (g0\<lparr>m_nb1 := replicate k1 [], m_nb2 := replicate k2 []\<rparr>)
           (map (\<lambda>e. AddEdge (fst e) (snd e) False) es) = Inr g' \<and>
         (\<forall>i<k1. length (m_nb1 g' ! i) = length (filter (\<lambda>x. fst x = i) es)) \<and>
         (\<forall>j<k2. length (m_nb2 g' ! j) = length (filter (\<lambda>x. snd x = j) es)) \<and>
         (\<forall>k<length es.
            m_nb1 g' ! fst (es ! k) ! length (filter (\<lambda>x. fst x = fst (es ! k)) (take k es)) =
              \<lparr>iter = length (filter (\<lambda>x. fst x = fst (es ! k)) (take k es)), node = snd (es ! k),
               dual = length (filter (\<lambda>x. snd x = snd (es ! k)) (take k es))\<rparr> \<and>
            m_nb2 g' ! snd (es ! k) ! length (filter (\<lambda>x. snd x = snd (es ! k)) (take k es)) =
              \<lparr>iter = length (filter (\<lambda>x. snd x = snd (es ! k)) (take k es)), node = fst (es ! k),
               dual = length (filter (\<lambda>x. fst x = fst (es ! k)) (take k es))\<rparr>)"
    using c g'(2,3) sz cnt inv leg rn recs by (intro exI[of _ g']) simp
qed

text \<open>
  A second edge between node 1 of type 1 and node 0 of type 2 of the example graph, and
  the bulk construction of two nodes of type 1 and one of type 2 from the edges
  \<open>(0, 0), (1, 0), (0, 0)\<close>: the repeated edge is stored twice, and the three records of
  the node of type 2 follow the order of the input.
\<close>

theorem unchecked_insertion_keeps_duplicates_witness:
  "1 < nr1 example_graph \<and> 0 < nr2 example_graph \<and> edge_exists (m_nb1 example_graph ! 1) 0 \<and>
   (\<exists>g'. addEdge plain_build example_graph 1 0 False = Inr g' \<and>
      m_nb1 g' ! 1 = [\<lparr>iter = 0, node = 0, dual = 1\<rparr>, \<lparr>iter = 1, node = 1, dual = 0\<rparr>,
                      \<lparr>iter = 2, node = 0, dual = 3\<rparr>] \<and>
      m_nb2 g' ! 0 = [\<lparr>iter = 0, node = 0, dual = 0\<rparr>, \<lparr>iter = 1, node = 1, dual = 0\<rparr>,
                      \<lparr>iter = 2, node = 2, dual = 0\<rparr>, \<lparr>iter = 3, node = 1, dual = 2\<rparr>] \<and>
      nrEdges plain_build example_graph = Inr 5 \<and> nrEdges plain_build g' = Inr 6 \<and> dual_inv g') \<and>
   \<not> DAI_DEBUG plain_build \<and>
   (\<exists>g'. construct plain_build BipartiteGraph_empty 2 1 [(0, 0), (1, 0), (0, 0)] = Inr g' \<and>
      nr1 g' = 2 \<and> nr2 g' = 1 \<and> nrEdges plain_build g' = Inr 3 \<and> dual_inv g' \<and>
      m_nb1 g' ! 0 ! 0 = \<lparr>iter = 0, node = 0, dual = 0\<rparr> \<and>
      m_nb1 g' ! 1 ! 0 = \<lparr>iter = 0, node = 0, dual = 1\<rparr> \<and>
      m_nb1 g' ! 0 ! 1 = \<lparr>iter = 1, node = 0, dual = 2\<rparr> \<and>
      m_nb2 g' ! 0 ! 0 = \<lparr>iter = 0, node = 0, dual = 0\<rparr> \<and>
      m_nb2 g' ! 0 ! 1 = \<lparr>iter = 1, node = 1, dual = 0\<rparr> \<and>
      m_nb2 g' ! 0 ! 2 = \<lparr>iter = 2, node = 0, dual = 1\<rparr> \<and>
      length (m_nb1 g' ! 0) = 2 \<and> length (m_nb1 g' ! 1) = 1 \<and> length (m_nb2 g' ! 0) = 3 \<and>
      g' = BipartiteGraph_empty\<lparr>
        m_nb1 := [[\<lparr>iter = 0, node = 0, dual = 0\<rparr>, \<lparr>iter = 1, node = 0, dual = 2\<rparr>],
                  [\<lparr>iter = 0, node = 0, dual = 1\<rparr>]],
        m_nb2 := [[\<lparr>iter = 0, node = 0, dual = 0\<rparr>, \<lparr>iter = 1, node = 1, dual = 0\<rparr>,
                   \<lparr>iter = 2, node = 0, dual = 1\<rparr>]]\<rparr>)"
proof -
  have h: "1 < nr1 example_graph \<and> 0 < nr2 example_graph"
    by (simp add: example_graph_def nr1_def nr2_def)
  have e: "edge_exists (m_nb1 example_graph ! 1) 0"
    by (simp add: example_graph_def)
  let ?es = "[(0::nat, 0::nat), (1, 0), (0, 0)]"
  have d: "\<not> DAI_DEBUG plain_build \<and> (\<forall>e\<in>set ?es. fst e < 2 \<and> snd e < 1)"
    by (simp add: plain_build_def)
  have k: "nrEdges plain_build example_graph = Inr 5"
    by (simp add: nrEdges_sum example_graph_def)
  note T = unchecked_insertion_keeps_duplicates[of 1 example_graph 0 plain_build
      ?es 2 1 BipartiteGraph_empty]
  from T h dual_inv_example obtain g' k' where g': "addEdge plain_build example_graph 1 0 False = Inr g'"
    "m_nb1 g' = (m_nb1 example_graph)[1 := m_nb1 example_graph ! 1 @
           [\<lparr>iter = length (m_nb1 example_graph ! 1), node = 0, dual = length (m_nb2 example_graph ! 0)\<rparr>]]"
    "m_nb2 g' = (m_nb2 example_graph)[0 := m_nb2 example_graph ! 0 @
           [\<lparr>iter = length (m_nb2 example_graph ! 0), node = 1, dual = length (m_nb1 example_graph ! 1)\<rparr>]]"
    "nrEdges plain_build example_graph = Inr k'" "nrEdges plain_build g' = Inr (Suc k')"
    "dual_inv g'"
    by blast
  from g'(4,5) k have k6: "nrEdges plain_build g' = Inr 6" by simp
  from g'(2) have a: "m_nb1 g' ! 1 = [\<lparr>iter = 0, node = 0, dual = 1\<rparr>, \<lparr>iter = 1, node = 1, dual = 0\<rparr>,
                      \<lparr>iter = 2, node = 0, dual = 3\<rparr>]"
    by (simp add: example_graph_def)
  from g'(3) have c: "m_nb2 g' ! 0 = [\<lparr>iter = 0, node = 0, dual = 0\<rparr>, \<lparr>iter = 1, node = 1, dual = 0\<rparr>,
                      \<lparr>iter = 2, node = 2, dual = 0\<rparr>, \<lparr>iter = 3, node = 1, dual = 2\<rparr>]"
    by (simp add: example_graph_def)
  from T d obtain g2 where g2: "construct plain_build BipartiteGraph_empty 2 1 ?es = Inr g2"
    "nr1 g2 = 2" "nr2 g2 = 1"
    "nrEdges plain_build g2 = Inr (length ?es)" "dual_inv g2"
    and l1: "\<forall>i<2. length (m_nb1 g2 ! i) = length (filter (\<lambda>x. fst x = i) ?es)"
    and l2: "\<forall>j<1. length (m_nb2 g2 ! j) = length (filter (\<lambda>x. snd x = j) ?es)"
    and rec: "\<forall>k<length ?es.
            m_nb1 g2 ! fst (?es ! k) ! length (filter (\<lambda>x. fst x = fst (?es ! k)) (take k ?es)) =
              \<lparr>iter = length (filter (\<lambda>x. fst x = fst (?es ! k)) (take k ?es)), node = snd (?es ! k),
               dual = length (filter (\<lambda>x. snd x = snd (?es ! k)) (take k ?es))\<rparr> \<and>
            m_nb2 g2 ! snd (?es ! k) ! length (filter (\<lambda>x. snd x = snd (?es ! k)) (take k ?es)) =
              \<lparr>iter = length (filter (\<lambda>x. snd x = snd (?es ! k)) (take k ?es)), node = fst (?es ! k),
               dual = length (filter (\<lambda>x. fst x = fst (?es ! k)) (take k ?es))\<rparr>"
    by blast
  from g2(4) have n3: "nrEdges plain_build g2 = Inr 3" by simp
  from l1 have len1: "length (m_nb1 g2 ! 0) = 2" "length (m_nb1 g2 ! 1) = 1"
    by simp_all
  from l2 have len2: "length (m_nb2 g2 ! 0) = 3" by simp
  from rec have r0: "m_nb1 g2 ! 0 ! 0 = \<lparr>iter = 0, node = 0, dual = 0\<rparr>"
    "m_nb2 g2 ! 0 ! 0 = \<lparr>iter = 0, node = 0, dual = 0\<rparr>"
    by (auto dest!: spec[of _ 0])
  from rec have r1: "m_nb1 g2 ! 1 ! 0 = \<lparr>iter = 0, node = 0, dual = 1\<rparr>"
    "m_nb2 g2 ! 0 ! 1 = \<lparr>iter = 1, node = 1, dual = 0\<rparr>"
    by (auto dest!: spec[of _ 1])
  from rec have r2: "m_nb1 g2 ! 0 ! 1 = \<lparr>iter = 1, node = 0, dual = 2\<rparr>"
    "m_nb2 g2 ! 0 ! 2 = \<lparr>iter = 2, node = 0, dual = 1\<rparr>"
    by (auto dest!: spec[of _ 2] simp: eval_nat_numeral)
  have ev: "construct plain_build BipartiteGraph_empty 2 1 ?es = Inr (BipartiteGraph_empty\<lparr>
        m_nb1 := [[\<lparr>iter = 0, node = 0, dual = 0\<rparr>, \<lparr>iter = 1, node = 0, dual = 2\<rparr>],
                  [\<lparr>iter = 0, node = 0, dual = 1\<rparr>]],
        m_nb2 := [[\<lparr>iter = 0, node = 0, dual = 0\<rparr>, \<lparr>iter = 1, node = 1, dual = 0\<rparr>,
                   \<lparr>iter = 2, node = 0, dual = 1\<rparr>]]\<rparr>)"
    by (simp add: construct_def addEdge_def addEdge_push_def assert_fails_def
        plain_build_def BipartiteGraph_empty_def nr1_def nr2_def Let_def eval_nat_numeral)
  with g2(1) have eq: "g2 = BipartiteGraph_empty\<lparr>
        m_nb1 := [[\<lparr>iter = 0, node = 0, dual = 0\<rparr>, \<lparr>iter = 1, node = 0, dual = 2\<rparr>],
                  [\<lparr>iter = 0, node = 0, dual = 1\<rparr>]],
        m_nb2 := [[\<lparr>iter = 0, node = 0, dual = 0\<rparr>, \<lparr>iter = 1, node = 1, dual = 0\<rparr>,
                   \<lparr>iter = 2, node = 0, dual = 1\<rparr>]]\<rparr>"
    by simp
  have first: "\<exists>g'. addEdge plain_build example_graph 1 0 False = Inr g' \<and>
      m_nb1 g' ! 1 = [\<lparr>iter = 0, node = 0, dual = 1\<rparr>, \<lparr>iter = 1, node = 1, dual = 0\<rparr>,
                      \<lparr>iter = 2, node = 0, dual = 3\<rparr>] \<and>
      m_nb2 g' ! 0 = [\<lparr>iter = 0, node = 0, dual = 0\<rparr>, \<lparr>iter = 1, node = 1, dual = 0\<rparr>,
                      \<lparr>iter = 2, node = 2, dual = 0\<rparr>, \<lparr>iter = 3, node = 1, dual = 2\<rparr>] \<and>
      nrEdges plain_build example_graph = Inr 5 \<and> nrEdges plain_build g' = Inr 6 \<and> dual_inv g'"
    using g'(1,6) k k6 a c by blast
  have second: "\<exists>g'. construct plain_build BipartiteGraph_empty 2 1 ?es = Inr g' \<and>
      nr1 g' = 2 \<and> nr2 g' = 1 \<and> nrEdges plain_build g' = Inr 3 \<and> dual_inv g' \<and>
      m_nb1 g' ! 0 ! 0 = \<lparr>iter = 0, node = 0, dual = 0\<rparr> \<and>
      m_nb1 g' ! 1 ! 0 = \<lparr>iter = 0, node = 0, dual = 1\<rparr> \<and>
      m_nb1 g' ! 0 ! 1 = \<lparr>iter = 1, node = 0, dual = 2\<rparr> \<and>
      m_nb2 g' ! 0 ! 0 = \<lparr>iter = 0, node = 0, dual = 0\<rparr> \<and>
      m_nb2 g' ! 0 ! 1 = \<lparr>iter = 1, node = 1, dual = 0\<rparr> \<and>
      m_nb2 g' ! 0 ! 2 = \<lparr>iter = 2, node = 0, dual = 1\<rparr> \<and>
      length (m_nb1 g' ! 0) = 2 \<and> length (m_nb1 g' ! 1) = 1 \<and> length (m_nb2 g' ! 0) = 3 \<and>
      g' = BipartiteGraph_empty\<lparr>
        m_nb1 := [[\<lparr>iter = 0, node = 0, dual = 0\<rparr>, \<lparr>iter = 1, node = 0, dual = 2\<rparr>],
                  [\<lparr>iter = 0, node = 0, dual = 1\<rparr>]],
        m_nb2 := [[\<lparr>iter = 0, node = 0, dual = 0\<rparr>, \<lparr>iter = 1, node = 1, dual = 0\<rparr>,
                   \<lparr>iter = 2, node = 0, dual = 1\<rparr>]]\<rparr>"
    using g2(1,2,3,5) n3 r0 r1 r2 len1 len2 eq by blast
  from h e d first second show ?thesis by blast
qed

text \<open>The constructor from a range of edges is \<open>construct\<close> on the default-constructed graph.\<close>

lemma BipartiteGraph_range_construct:
  "BipartiteGraph_range b n1 n2 es = construct b BipartiteGraph_empty n1 n2 es"
  by (simp add: BipartiteGraph_range_def construct_def BipartiteGraph_empty_def)

subsection \<open>Bound checks\<close>

text \<open>
  Claim C6, as the header has it. The checks are assertions, and which of them are
  compiled depends on the build.
  \<^item> Where \<^verbatim>\<open>assert\<close> is active (\<^verbatim>\<open>NDEBUG\<close> not defined), \<open>addEdge\<close> and \<open>eraseEdge\<close> fail
    with a failed assertion when \<open>n1 \<ge> nr1()\<close> or \<open>n2 \<ge> nr2()\<close>, and so does \<open>construct\<close>
    when one of its edges has an id out of range.
  \<^item> The accessors \<open>nb1\<close> and \<open>nb2\<close> (both overloads) fail with a failed assertion on a
    node id out of range only where \<^verbatim>\<open>DAI_DEBUG\<close> is defined and \<^verbatim>\<open>assert\<close> is active; in
    every other build the access is unchecked and undefined.
  \<^item> With \<^verbatim>\<open>NDEBUG\<close>, \<open>eraseEdge\<close> and unchecked \<open>addEdge\<close> with an id out of range are
    undefined as well.
\<close>

theorem bound_checks_depend_on_build:
  "(\<not> NDEBUG b \<and> (nr1 g \<le> n1 \<or> nr2 g \<le> n2) \<longrightarrow>
      addEdge b g n1 n2 check = Inl AssertionFailed \<and> eraseEdge b g n1 n2 = Inl AssertionFailed) \<and>
   (\<not> NDEBUG b \<and> (\<exists>e\<in>set es. k1 \<le> fst e \<or> k2 \<le> snd e) \<longrightarrow>
      construct b g k1 k2 es = Inl AssertionFailed) \<and>
   (DAI_DEBUG b \<and> \<not> NDEBUG b \<and> nr1 g \<le> i \<longrightarrow>
      nb1 b g i = Inl AssertionFailed \<and> nb1_at b g i p = Inl AssertionFailed) \<and>
   (DAI_DEBUG b \<and> \<not> NDEBUG b \<and> nr2 g \<le> i \<longrightarrow>
      nb2 b g i = Inl AssertionFailed \<and> nb2_at b g i p = Inl AssertionFailed) \<and>
   ((\<not> DAI_DEBUG b \<or> NDEBUG b) \<and> nr1 g \<le> i \<longrightarrow>
      nb1 b g i = Inl UndefinedBehaviour \<and> nb1_at b g i p = Inl UndefinedBehaviour) \<and>
   ((\<not> DAI_DEBUG b \<or> NDEBUG b) \<and> nr2 g \<le> i \<longrightarrow>
      nb2 b g i = Inl UndefinedBehaviour \<and> nb2_at b g i p = Inl UndefinedBehaviour) \<and>
   (NDEBUG b \<and> (nr1 g \<le> n1 \<or> nr2 g \<le> n2) \<longrightarrow>
      addEdge b g n1 n2 False = Inl UndefinedBehaviour \<and>
      eraseEdge b g n1 n2 = Inl UndefinedBehaviour)"
proof (intro conjI impI)
  assume "\<not> NDEBUG b \<and> (nr1 g \<le> n1 \<or> nr2 g \<le> n2)"
  then show "addEdge b g n1 n2 check = Inl AssertionFailed"
    and "eraseEdge b g n1 n2 = Inl AssertionFailed"
    by (simp_all add: addEdge_asserts eraseEdge_asserts)
next
  assume h: "\<not> NDEBUG b \<and> (\<exists>e\<in>set es. k1 \<le> fst e \<or> k2 \<le> snd e)"
  let ?g = "g\<lparr>m_nb1 := replicate k1 [], m_nb2 := replicate k2 []\<rparr>"
  from h have "\<exists>e\<in>set es. nr1 ?g \<le> fst e \<or> nr2 ?g \<le> snd e"
    by (simp add: nr1_def nr2_def)
  with h show "construct b g k1 k2 es = Inl AssertionFailed"
    by (simp add: construct_def construct_loop_asserts)
next
  assume "DAI_DEBUG b \<and> \<not> NDEBUG b \<and> nr1 g \<le> i"
  then show "nb1 b g i = Inl AssertionFailed" and "nb1_at b g i p = Inl AssertionFailed"
    by (simp_all add: nb1_def nb1_at_def debug_assert_fails_def assert_fails_def nr1_def)
next
  assume "DAI_DEBUG b \<and> \<not> NDEBUG b \<and> nr2 g \<le> i"
  then show "nb2 b g i = Inl AssertionFailed" and "nb2_at b g i p = Inl AssertionFailed"
    by (simp_all add: nb2_def nb2_at_def debug_assert_fails_def assert_fails_def nr2_def)
next
  assume "(\<not> DAI_DEBUG b \<or> NDEBUG b) \<and> nr1 g \<le> i"
  then show "nb1 b g i = Inl UndefinedBehaviour" and "nb1_at b g i p = Inl UndefinedBehaviour"
    by (auto simp: nb1_def nb1_at_def debug_assert_fails_def assert_fails_def nr1_def)
next
  assume "(\<not> DAI_DEBUG b \<or> NDEBUG b) \<and> nr2 g \<le> i"
  then show "nb2 b g i = Inl UndefinedBehaviour" and "nb2_at b g i p = Inl UndefinedBehaviour"
    by (auto simp: nb2_def nb2_at_def debug_assert_fails_def assert_fails_def nr2_def)
next
  assume "NDEBUG b \<and> (nr1 g \<le> n1 \<or> nr2 g \<le> n2)"
  then show "addEdge b g n1 n2 False = Inl UndefinedBehaviour"
    and "eraseEdge b g n1 n2 = Inl UndefinedBehaviour"
    by (auto simp: addEdge_def addEdge_push_def eraseEdge_def assert_fails_def nr1_def nr2_def)
qed

theorem bound_checks_depend_on_build_witness:
  "addEdge plain_build example_graph 3 0 True = Inl AssertionFailed \<and>
   eraseEdge plain_build example_graph 3 0 = Inl AssertionFailed \<and>
   construct plain_build BipartiteGraph_empty 3 2 [(0, 0), (3, 0)] = Inl AssertionFailed \<and>
   nb1 \<lparr>DAI_DEBUG = True, NDEBUG = False\<rparr> example_graph 3 = Inl AssertionFailed \<and>
   nb1_at \<lparr>DAI_DEBUG = True, NDEBUG = False\<rparr> example_graph 3 0 = Inl AssertionFailed \<and>
   nb2 \<lparr>DAI_DEBUG = True, NDEBUG = False\<rparr> example_graph 2 = Inl AssertionFailed \<and>
   nb2_at \<lparr>DAI_DEBUG = True, NDEBUG = False\<rparr> example_graph 2 0 = Inl AssertionFailed \<and>
   nb1 plain_build example_graph 3 = Inl UndefinedBehaviour \<and>
   nb1_at plain_build example_graph 3 0 = Inl UndefinedBehaviour \<and>
   nb2 plain_build example_graph 2 = Inl UndefinedBehaviour \<and>
   nb2_at plain_build example_graph 2 0 = Inl UndefinedBehaviour \<and>
   addEdge \<lparr>DAI_DEBUG = False, NDEBUG = True\<rparr> example_graph 3 0 False = Inl UndefinedBehaviour \<and>
   eraseEdge \<lparr>DAI_DEBUG = False, NDEBUG = True\<rparr> example_graph 3 0 = Inl UndefinedBehaviour"
proof -
  have n: "nr1 example_graph = 3" "nr2 example_graph = 2"
    by (simp_all add: example_graph_def nr1_def nr2_def)
  have e: "\<exists>e\<in>set [(0::nat, 0::nat), (3, 0)]. 3 \<le> fst e \<or> 2 \<le> snd e" by simp
  show ?thesis
    using n e
      bound_checks_depend_on_build[where b = plain_build and g = example_graph and ?n1.0 = 3
        and ?n2.0 = 0 and check = True and es = "[(0, 0), (3, 0)]" and ?k1.0 = 3 and ?k2.0 = 2 and i = 3 and p = 0]
      bound_checks_depend_on_build[where b = plain_build and g = example_graph and ?n1.0 = 3
        and ?n2.0 = 0 and check = True and es = "[(0, 0), (3, 0)]" and ?k1.0 = 3 and ?k2.0 = 2 and i = 2 and p = 0]
      bound_checks_depend_on_build[where b = plain_build and g = BipartiteGraph_empty and ?n1.0 = 3
        and ?n2.0 = 0 and check = True and es = "[(0, 0), (3, 0)]" and ?k1.0 = 3 and ?k2.0 = 2 and i = 2 and p = 0]
      bound_checks_depend_on_build[where b = "\<lparr>DAI_DEBUG = True, NDEBUG = False\<rparr>" and g = example_graph
        and ?n1.0 = 3 and ?n2.0 = 0 and check = True and es = "[]" and ?k1.0 = 3 and ?k2.0 = 2 and i = 3 and p = 0]
      bound_checks_depend_on_build[where b = "\<lparr>DAI_DEBUG = True, NDEBUG = False\<rparr>" and g = example_graph
        and ?n1.0 = 3 and ?n2.0 = 0 and check = True and es = "[]" and ?k1.0 = 3 and ?k2.0 = 2 and i = 2 and p = 0]
      bound_checks_depend_on_build[where b = "\<lparr>DAI_DEBUG = False, NDEBUG = True\<rparr>" and g = example_graph
        and ?n1.0 = 3 and ?n2.0 = 0 and check = True and es = "[]" and ?k1.0 = 3 and ?k2.0 = 2 and i = 2 and p = 0]
    by (simp add: plain_build_def)
qed

text \<open>
  The claim as stated fails: with no macro defined, \<open>nb1(0)\<close> on the empty graph is an
  unchecked access out of range, not a reported error; and with \<^verbatim>\<open>NDEBUG\<close> so is
  \<open>eraseEdge(0, 0)\<close>, even where \<^verbatim>\<open>DAI_DEBUG\<close> is defined.
\<close>

theorem unchecked_access_is_undefined:
  "nb1 plain_build BipartiteGraph_empty 0 = Inl UndefinedBehaviour \<and>
   nb1 plain_build BipartiteGraph_empty 0 \<noteq> Inl AssertionFailed \<and>
   nb1 plain_build BipartiteGraph_empty 0 \<noteq> Inl IndexOutOfRange \<and>
   eraseEdge \<lparr>DAI_DEBUG = True, NDEBUG = True\<rparr> BipartiteGraph_empty 0 0 = Inl UndefinedBehaviour"
  by (simp add: nb1_def eraseEdge_def debug_assert_fails_def assert_fails_def plain_build_def
      BipartiteGraph_empty_def nr1_def nr2_def)

subsection \<open>The compatibility layer before indexEdges\<close>

text \<open>Only \<open>indexEdges\<close> writes the members of the compatibility layer.\<close>

lemma eraseEdge_legacy:
  "eraseEdge b g n1 n2 = Inr g' \<Longrightarrow> legacy g' = legacy g"
  by (auto simp: eraseEdge_def legacy_def split: if_splits)

lemma add1_loop_legacy:
  "add1_loop b g ns nbs it = Inr (g', nbs') \<Longrightarrow> legacy g' = legacy g"
proof (induction ns arbitrary: g nbs it)
  case Nil
  then show ?case by simp
next
  case (Cons n ns)
  from Cons.prems obtain l where
    "add1_loop b (g\<lparr>m_nb2 := (m_nb2 g)[n := l @ [\<lparr>iter = length l, node = nr1 g, dual = it\<rparr>]]\<rparr>) ns
       (nbs @ [\<lparr>iter = it, node = n, dual = length l\<rparr>]) (Suc it) = Inr (g', nbs')"
    by (auto simp: Let_def split: if_splits sum.splits)
  from Cons.IH[OF this] show ?case by (simp add: legacy_def)
qed

lemma add2_loop_legacy:
  "add2_loop b g ns nbs it = Inr (g', nbs') \<Longrightarrow> legacy g' = legacy g"
proof (induction ns arbitrary: g nbs it)
  case Nil
  then show ?case by simp
next
  case (Cons n ns)
  from Cons.prems obtain l where
    "add2_loop b (g\<lparr>m_nb1 := (m_nb1 g)[n := l @ [\<lparr>iter = length l, node = nr2 g, dual = it\<rparr>]]\<rparr>) ns
       (nbs @ [\<lparr>iter = it, node = n, dual = length l\<rparr>]) (Suc it) = Inr (g', nbs')"
    by (auto simp: Let_def split: if_splits sum.splits)
  from Cons.IH[OF this] show ?case by (simp add: legacy_def)
qed

lemma add1_range_legacy: "add1_range b g ns = Inr g' \<Longrightarrow> legacy g' = legacy g"
  by (auto simp: add1_range_def legacy_def split: sum.splits dest!: add1_loop_legacy)

lemma add2_range_legacy: "add2_range b g ns = Inr g' \<Longrightarrow> legacy g' = legacy g"
  by (auto simp: add2_range_def legacy_def split: sum.splits dest!: add2_loop_legacy)

lemma erase_incident1_legacy:
  "erase_incident1 b g n1 ns = Inr g' \<Longrightarrow> legacy g' = legacy g"
proof (induction ns arbitrary: g)
  case Nil
  then show ?case by simp
next
  case (Cons n ns)
  then obtain g1 where g1: "eraseEdge b g n1 n = Inr g1" "erase_incident1 b g1 n1 ns = Inr g'"
    by (auto split: sum.splits)
  from Cons.IH[OF g1(2)] eraseEdge_legacy[OF g1(1)] show ?case by simp
qed

lemma erase_incident2_legacy:
  "erase_incident2 b g n2 ns = Inr g' \<Longrightarrow> legacy g' = legacy g"
proof (induction ns arbitrary: g)
  case Nil
  then show ?case by simp
next
  case (Cons n ns)
  then obtain g1 where g1: "eraseEdge b g n n2 = Inr g1" "erase_incident2 b g1 n2 ns = Inr g'"
    by (auto split: sum.splits)
  from Cons.IH[OF g1(2)] eraseEdge_legacy[OF g1(1)] show ?case by simp
qed

lemma erase1_legacy: "erase1 b g n1 = Inr g' \<Longrightarrow> legacy g' = legacy g"
  by (auto simp: erase1_def legacy_def split: if_splits sum.splits dest!: erase_incident1_legacy)

lemma erase2_legacy: "erase2 b g n2 = Inr g' \<Longrightarrow> legacy g' = legacy g"
  by (auto simp: erase2_def legacy_def split: if_splits sum.splits dest!: erase_incident2_legacy)

lemma step_legacy:
  assumes "step b g c = Inr g'" "c \<noteq> IndexEdges"
  shows "legacy g' = legacy g"
proof (cases c)
  case Add1
  with assms show ?thesis by (auto simp: add1_def legacy_def)
next
  case Add2
  with assms show ?thesis by (auto simp: add2_def legacy_def)
next
  case (Add1Range ns)
  with assms show ?thesis by (simp add: add1_range_legacy)
next
  case (Add2Range ns)
  with assms show ?thesis by (simp add: add2_range_legacy)
next
  case (AddEdge n1 n2 check)
  with assms show ?thesis by (simp add: addEdge_frame)
next
  case (EraseEdge n1 n2)
  with assms show ?thesis by (simp add: eraseEdge_legacy)
next
  case (Erase1 n)
  with assms show ?thesis by (simp add: erase1_legacy)
next
  case (Erase2 n)
  with assms show ?thesis by (simp add: erase2_legacy)
next
  case (Construct k1 k2 es)
  with assms show ?thesis by (simp add: construct_legacy)
next
  case IndexEdges
  with assms show ?thesis by simp
qed

lemma run_legacy:
  "run b g cs = Inr g' \<Longrightarrow> IndexEdges \<notin> set cs \<Longrightarrow> legacy g' = legacy g"
proof (induction cs arbitrary: g)
  case Nil
  then show ?case by simp
next
  case (Cons c cs)
  then obtain g1 where g1: "step b g c = Inr g1" "run b g1 cs = Inr g'"
    by (auto split: sum.splits)
  from Cons.prems have "c \<noteq> IndexEdges" "IndexEdges \<notin> set cs" by auto
  from Cons.IH[OF g1(2) this(2)] step_legacy[OF g1(1) this(1)] show ?case by simp
qed

text \<open>
  Claim C7, as the header has it. On an object on which \<open>indexEdges()\<close> has not been
  called, in a build where \<^verbatim>\<open>assert\<close> is active (\<^verbatim>\<open>NDEBUG\<close> not defined), each of
  \<open>edge(e)\<close>, \<open>VV2E(n1, n2)\<close> and \<open>nr_edges()\<close> fails with a failed assertion. With
  \<^verbatim>\<open>NDEBUG\<close> the assertion is compiled out: \<open>nr_edges()\<close> returns 0, the size of the
  still empty edge list, and the other two read out of range.
\<close>

theorem legacy_queries_before_indexEdges:
  assumes "run b BipartiteGraph_empty cs = Inr g" and "IndexEdges \<notin> set cs"
  shows "(\<not> NDEBUG b \<longrightarrow>
            edge b g e = Inl AssertionFailed \<and> VV2E b g n1 n2 = Inl AssertionFailed \<and>
            nr_edges b g = Inl AssertionFailed) \<and>
         (NDEBUG b \<longrightarrow>
            edge b g e = Inl UndefinedBehaviour \<and> VV2E b g n1 n2 = Inl UndefinedBehaviour \<and>
            nr_edges b g = Inr 0)"
proof -
  from run_legacy[OF assms] have "legacy g = legacy BipartiteGraph_empty" .
  then have "\<not> m_edge_indexed g" "m_edges g = []" "m_vv2e g = Map.empty"
    by (simp_all add: legacy_def BipartiteGraph_empty_def)
  then show ?thesis
    by (simp add: edge_def VV2E_def nr_edges_def assert_fails_def)
qed

theorem legacy_queries_before_indexEdges_witness:
  "run plain_build BipartiteGraph_empty [Construct 3 2 example_edges] = Inr example_graph \<and>
   IndexEdges \<notin> set [Construct 3 2 example_edges] \<and> \<not> NDEBUG plain_build \<and>
   edge plain_build example_graph 0 = Inl AssertionFailed \<and>
   VV2E plain_build example_graph 1 0 = Inl AssertionFailed \<and>
   nr_edges plain_build example_graph = Inl AssertionFailed \<and>
   run \<lparr>DAI_DEBUG = False, NDEBUG = True\<rparr> BipartiteGraph_empty [Add1] =
     Inr (snd (add1 BipartiteGraph_empty)) \<and>
   IndexEdges \<notin> set [Add1] \<and> NDEBUG \<lparr>DAI_DEBUG = False, NDEBUG = True\<rparr> \<and>
   edge \<lparr>DAI_DEBUG = False, NDEBUG = True\<rparr> (snd (add1 BipartiteGraph_empty)) 0 =
     Inl UndefinedBehaviour \<and>
   VV2E \<lparr>DAI_DEBUG = False, NDEBUG = True\<rparr> (snd (add1 BipartiteGraph_empty)) 0 0 =
     Inl UndefinedBehaviour \<and>
   nr_edges \<lparr>DAI_DEBUG = False, NDEBUG = True\<rparr> (snd (add1 BipartiteGraph_empty)) = Inr 0"
proof -
  have r: "run plain_build BipartiteGraph_empty [Construct 3 2 example_edges] = Inr example_graph"
    by (simp add: construct_def example_edges_def addEdge_def addEdge_push_def assert_fails_def
        plain_build_def BipartiteGraph_empty_def example_graph_def nr1_def nr2_def Let_def
        eval_nat_numeral)
  have i: "IndexEdges \<notin> set [Construct 3 2 example_edges]" by simp
  have n: "\<not> NDEBUG plain_build" by (simp add: plain_build_def)
  have r2: "run \<lparr>DAI_DEBUG = False, NDEBUG = True\<rparr> BipartiteGraph_empty [Add1] =
      Inr (snd (add1 BipartiteGraph_empty))"
    by simp
  have i2: "IndexEdges \<notin> set [Add1]" by simp
  from legacy_queries_before_indexEdges[OF r i, of 0 1 0]
    legacy_queries_before_indexEdges[OF r2 i2, of 0 0 0] n r i r2 i2
  show ?thesis by simp
qed

text \<open>
  The claim as stated fails: with \<^verbatim>\<open>NDEBUG\<close>, \<open>nr_edges()\<close> on a default-constructed graph
  returns a value.
\<close>

theorem nr_edges_returns_without_index:
  "nr_edges \<lparr>DAI_DEBUG = False, NDEBUG = True\<rparr> BipartiteGraph_empty = Inr 0"
  by (simp add: nr_edges_def assert_fails_def BipartiteGraph_empty_def)

subsection \<open>Both sides agree on the edges\<close>

lemma nodes_valid_iff:
  "nodes_valid xss n \<longleftrightarrow> (\<forall>a<length xss. \<forall>r\<in>set (xss ! a). node r < n)"
proof -
  have "(\<forall>xs\<in>set xss. \<forall>r\<in>set xs. node r < n) \<longleftrightarrow>
      (\<forall>a<length xss. \<forall>r\<in>set (xss ! a). node r < n)"
    by (metis in_set_conv_nth)
  then show ?thesis
    by (simp add: nodes_valid_def list_all_iff)
qed

lemma counts_match_iff:
  "counts_match own other \<longleftrightarrow>
     (\<forall>a<length own. \<forall>c<length other. count_node (own ! a) c = count_node (other ! c) a)"
  by (auto simp: counts_match_def list_all_iff)

lemma matched_sym: "matched own other \<Longrightarrow> matched other own"
  by (auto simp: matched_def counts_match_iff)

lemma count_node_append [simp]:
  "count_node (xs @ ys) c = count_node xs c + count_node ys c"
  by (simp add: count_node_def)

lemma count_node_single [simp]: "count_node [r] c = (if node r = c then 1 else 0)"
  by (simp add: count_node_def)

lemma count_node_Nil [simp]: "count_node [] c = 0"
  by (simp add: count_node_def)

lemma count_node_Cons: "count_node (r # xs) c = (if node r = c then 1 else 0) + count_node xs c"
  by (simp add: count_node_def)

lemma count_node_zero_iff: "count_node xs c = 0 \<longleftrightarrow> \<not> edge_exists xs c"
  by (induction xs) (simp_all add: count_node_Cons)

lemma count_node_erase_first:
  "count_node (erase_first xs n) c = (if c = n then count_node xs n - 1 else count_node xs c)"
  by (induction xs) (auto simp: count_node_Cons)

lemma set_erase_first: "set (erase_first xs n) \<subseteq> set xs"
  by (induction xs) auto

text \<open>The length of a list is the sum of its counts, when all its records are in range.\<close>

lemma length_count_sum:
  "\<forall>r\<in>set xs. node r < n \<Longrightarrow> length xs = (\<Sum>c<n. count_node xs c)"
proof (induction xs)
  case Nil
  then show ?case by simp
next
  case (Cons r xs)
  then have r: "node r < n" and IH: "length xs = (\<Sum>c<n. count_node xs c)" by simp_all
  have "(\<Sum>c<n. count_node (r # xs) c) =
      (\<Sum>c<n. if node r = c then 1 else 0) + (\<Sum>c<n. count_node xs c)"
    by (simp add: count_node_Cons sum.distrib)
  also have "(\<Sum>c<n. if node r = c then 1 else 0) = (1::nat)"
    using r by simp
  finally show ?case using IH by simp
qed

lemma matched_sums:
  assumes "matched own other"
  shows "sum_list (map length own) = sum_list (map length other)"
proof -
  from assms have v1: "\<forall>a<length own. \<forall>r\<in>set (own ! a). node r < length other"
    and v2: "\<forall>c<length other. \<forall>r\<in>set (other ! c). node r < length own"
    and cm: "\<forall>a<length own. \<forall>c<length other. count_node (own ! a) c = count_node (other ! c) a"
    by (simp_all add: matched_def nodes_valid_iff counts_match_iff)
  have "sum_list (map length own) = (\<Sum>a<length own. length (own ! a))"
    by (simp add: sum_list_sum_nth atLeast0LessThan)
  also have "\<dots> = (\<Sum>a<length own. \<Sum>c<length other. count_node (own ! a) c)"
    using v1 by (intro sum.cong refl length_count_sum) simp
  also have "\<dots> = (\<Sum>a<length own. \<Sum>c<length other. count_node (other ! c) a)"
    using cm by (intro sum.cong refl) simp
  also have "\<dots> = (\<Sum>c<length other. \<Sum>a<length own. count_node (other ! c) a)"
    by (rule sum.swap)
  also have "\<dots> = (\<Sum>c<length other. length (other ! c))"
    using v2 by (intro sum.cong refl length_count_sum[symmetric]) simp
  also have "\<dots> = sum_list (map length other)"
    by (simp add: sum_list_sum_nth atLeast0LessThan)
  finally show ?thesis .
qed

lemma matched_iff:
  "matched own other \<longleftrightarrow>
     (\<forall>a<length own. \<forall>r\<in>set (own ! a). node r < length other) \<and>
     (\<forall>c<length other. \<forall>r\<in>set (other ! c). node r < length own) \<and>
     (\<forall>a<length own. \<forall>c<length other. count_node (own ! a) c = count_node (other ! c) a)"
  by (simp add: matched_def nodes_valid_iff counts_match_iff)

lemma matched_push:
  assumes m: "matched own other" and a: "a < length own" and c: "c < length other"
    and r: "node r = c" and q: "node q = a"
  shows "matched (own[a := own ! a @ [r]]) (other[c := other ! c @ [q]])"
  using assms unfolding matched_iff
  by (auto simp: nth_list_update)

lemma in_set_erase_firstD: "r \<in> set (erase_first xs n) \<Longrightarrow> r \<in> set xs"
  using set_erase_first by blast

lemma matched_erase:
  assumes m: "matched own other" and a: "a < length own" and c: "c < length other"
  shows "matched (own[a := erase_first (own ! a) c]) (other[c := erase_first (other ! c) a])"
proof -
  from m a c have eq: "count_node (own ! a) c = count_node (other ! c) a"
    by (simp add: matched_iff)
  show ?thesis
    using m a c eq unfolding matched_iff
    by (auto simp: nth_list_update count_node_erase_first dest: in_set_erase_firstD)
qed

lemma matched_new_node:
  assumes "matched own other"
  shows "matched (own @ [[]]) other"
proof -
  have z: "count_node (other ! c) (length own) = 0" if "c < length other" for c
  proof -
    from assms that have "\<forall>r\<in>set (other ! c). node r < length own"
      by (simp add: matched_iff)
    then have "\<not> edge_exists (other ! c) (length own)"
      by (auto simp: edge_exists_iff)
    then show ?thesis by (simp add: count_node_zero_iff)
  qed
  show ?thesis
    using assms z unfolding matched_iff
    by (auto simp: nth_append less_Suc_eq)
qed

lemma length_delete_slot: "a < length xs \<Longrightarrow> length (delete_slot a xs) = length xs - 1"
  by (simp add: delete_slot_def)

lemma nth_delete_slot:
  "a < length xs \<Longrightarrow> i < length xs - 1 \<Longrightarrow>
   delete_slot a xs ! i = xs ! (if i < a then i else Suc i)"
  by (auto simp: delete_slot_def nth_append min_def)

lemma node_shift_down:
  "node r \<noteq> a \<Longrightarrow> node (shift_down a r) = i \<longleftrightarrow> node r = (if i < a then i else Suc i)"
  by (auto simp: shift_down_def)

lemma count_node_shift_down:
  "\<not> edge_exists ys a \<Longrightarrow>
   count_node (map (shift_down a) ys) i = count_node ys (if i < a then i else Suc i)"
proof (induction ys)
  case Nil
  then show ?case by simp
next
  case (Cons r ys)
  then have r: "node r \<noteq> a" and rest: "\<not> edge_exists ys a"
    by (auto split: if_splits)
  from Cons.IH[OF rest] node_shift_down[OF r, of i] show ?case
    by (simp add: count_node_Cons)
qed

lemma matched_delete_slot:
  assumes m: "matched own other" and a: "a < length own" and e: "own ! a = []"
  shows "matched (delete_slot a own) (map (map (shift_down a)) other)"
proof -
  from m have v1: "\<forall>a<length own. \<forall>r\<in>set (own ! a). node r < length other"
    and v2: "\<forall>c<length other. \<forall>r\<in>set (other ! c). node r < length own"
    and cm: "\<forall>a<length own. \<forall>c<length other. count_node (own ! a) c = count_node (other ! c) a"
    by (simp_all add: matched_iff)
  have none: "\<not> edge_exists (other ! c) a" if "c < length other" for c
  proof -
    from cm a that have "count_node (own ! a) c = count_node (other ! c) a" by blast
    with e have "count_node (other ! c) a = 0" by simp
    then show ?thesis by (simp add: count_node_zero_iff)
  qed
  let ?own = "delete_slot a own" and ?other = "map (map (shift_down a)) other"
  have l: "length ?own = length own - 1" "length ?other = length other"
    using a by (simp_all add: length_delete_slot)
  have up: "(if i < a then i else Suc i) < length own" if "i < length own - 1" for i
    using that by auto
  have p1: "\<forall>i<length ?own. \<forall>r\<in>set (?own ! i). node r < length ?other"
  proof (intro allI impI ballI)
    fix i r assume i: "i < length ?own" and r: "r \<in> set (?own ! i)"
    from i l have i': "i < length own - 1" by simp
    from r nth_delete_slot[OF a i'] have "r \<in> set (own ! (if i < a then i else Suc i))" by simp
    with v1 up[OF i'] show "node r < length ?other" by (simp add: l)
  qed
  have p2: "\<forall>c<length ?other. \<forall>r\<in>set (?other ! c). node r < length ?own"
  proof (intro allI impI ballI)
    fix c r assume c: "c < length ?other" and r: "r \<in> set (?other ! c)"
    from c have c': "c < length other" by simp
    from r c' obtain r0 where r0: "r0 \<in> set (other ! c)" "r = shift_down a r0" by auto
    from v2 c' r0(1) have b: "node r0 < length own" by simp
    from none[OF c'] r0(1) have ne: "node r0 \<noteq> a" by (auto simp: edge_exists_iff)
    from b ne a show "node r < length ?own"
      by (auto simp: r0(2) shift_down_def l)
  qed
  have p3: "\<forall>i<length ?own. \<forall>c<length ?other. count_node (?own ! i) c = count_node (?other ! c) i"
  proof (intro allI impI)
    fix i c assume i: "i < length ?own" and c: "c < length ?other"
    from i l have i': "i < length own - 1" by simp
    from c have c': "c < length other" by simp
    have "count_node (?other ! c) i = count_node (other ! c) (if i < a then i else Suc i)"
      using c' count_node_shift_down[OF none[OF c'], of i] by simp
    also have "\<dots> = count_node (own ! (if i < a then i else Suc i)) c"
      using cm up[OF i'] c' by simp
    also have "\<dots> = count_node (?own ! i) c"
      using nth_delete_slot[OF a i'] by simp
    finally show "count_node (?own ! i) c = count_node (?other ! c) i" by simp
  qed
  from p1 p2 p3 show ?thesis
    unfolding matched_iff by blast
qed

text \<open>Every operation keeps the two sides in agreement.\<close>

lemma edges_match_empty: "edges_match BipartiteGraph_empty"
  by (simp add: edges_match_def matched_iff BipartiteGraph_empty_def)

lemma edges_match_add1: "edges_match g \<Longrightarrow> edges_match (snd (add1 g))"
  by (simp add: edges_match_def add1_def matched_new_node)

lemma edges_match_add2: "edges_match g \<Longrightarrow> edges_match (snd (add2 g))"
  by (simp add: edges_match_def add2_def matched_new_node matched_sym)

lemma edges_match_addEdge_push:
  assumes "edges_match g" "addEdge_push g n1 n2 = Inr g'"
  shows "edges_match g'"
proof -
  from assms(2) have l: "n1 < length (m_nb1 g)" "n2 < length (m_nb2 g)"
    by (auto simp: addEdge_push_def split: if_splits)
  from assms(2) l have g': "m_nb1 g' = (m_nb1 g)[n1 := m_nb1 g ! n1 @
        [\<lparr>iter = length (m_nb1 g ! n1), node = n2, dual = length (m_nb2 g ! n2)\<rparr>]]"
      "m_nb2 g' = (m_nb2 g)[n2 := m_nb2 g ! n2 @
        [\<lparr>iter = length (m_nb2 g ! n2), node = n1, dual = length (m_nb1 g ! n1)\<rparr>]]"
    by (auto simp: addEdge_push_def Let_def)
  show ?thesis
    using assms(1) l unfolding edges_match_def g'
    by (intro matched_push) simp_all
qed

lemma edges_match_addEdge:
  assumes "edges_match g" "addEdge b g n1 n2 check = Inr g'"
  shows "edges_match g'"
  using addEdge_result[OF assms(2)] assms(1) edges_match_addEdge_push by blast

lemma eraseEdge_Inr:
  assumes "eraseEdge b g n1 n2 = Inr g'"
  shows "n1 < length (m_nb1 g) \<and> n2 < length (m_nb2 g) \<and>
         m_nb1 g' = (m_nb1 g)[n1 := erase_first (m_nb1 g ! n1) n2] \<and>
         m_nb2 g' = (m_nb2 g)[n2 := erase_first (m_nb2 g ! n2) n1]"
  using assms by (auto simp: eraseEdge_def split: if_splits)

lemma edges_match_eraseEdge:
  assumes "edges_match g" "eraseEdge b g n1 n2 = Inr g'"
  shows "edges_match g'"
  using assms(1) eraseEdge_Inr[OF assms(2)]
  by (simp add: edges_match_def matched_erase)

lemma edges_match_construct_loop:
  "edges_match g \<Longrightarrow> construct_loop b g es = Inr g' \<Longrightarrow> edges_match g'"
proof (induction es arbitrary: g)
  case Nil
  then show ?case by simp
next
  case (Cons e es)
  from Cons.prems(2) obtain g1 where g1: "addEdge b g (fst e) (snd e) (DAI_DEBUG b) = Inr g1"
    "construct_loop b g1 es = Inr g'"
    by (auto split: sum.splits)
  from Cons.IH[OF edges_match_addEdge[OF Cons.prems(1) g1(1)] g1(2)] show ?case .
qed

lemma edges_match_construct:
  assumes "construct b g k1 k2 es = Inr g'"
  shows "edges_match g'"
proof -
  have "edges_match (g\<lparr>m_nb1 := replicate k1 [], m_nb2 := replicate k2 []\<rparr>)"
    by (simp add: edges_match_def matched_iff)
  from edges_match_construct_loop[OF this] assms show ?thesis
    by (simp add: construct_def)
qed

lemma edges_match_add1_loop:
  "edges_match (g\<lparr>m_nb1 := m_nb1 g @ [nbs]\<rparr>) \<Longrightarrow> add1_loop b g ns nbs it = Inr (g', nbs') \<Longrightarrow>
   edges_match (g'\<lparr>m_nb1 := m_nb1 g' @ [nbs']\<rparr>)"
proof (induction ns arbitrary: g nbs it)
  case Nil
  then show ?case by simp
next
  case (Cons n ns)
  let ?q = "\<lparr>iter = length (m_nb2 g ! n), node = nr1 g, dual = it\<rparr>"
  let ?r = "\<lparr>iter = it, node = n, dual = length (m_nb2 g ! n)\<rparr>"
  let ?g1 = "g\<lparr>m_nb2 := (m_nb2 g)[n := m_nb2 g ! n @ [?q]]\<rparr>"
  from Cons.prems(2) have n: "n < length (m_nb2 g)"
    and rest: "add1_loop b ?g1 ns (nbs @ [?r]) (Suc it) = Inr (g', nbs')"
    by (auto simp: Let_def nb2_def split: if_splits sum.splits)
  have "matched ((m_nb1 g @ [nbs])[length (m_nb1 g) := (m_nb1 g @ [nbs]) ! length (m_nb1 g) @ [?r]])
          ((m_nb2 g)[n := m_nb2 g ! n @ [?q]])"
    using Cons.prems(1) n unfolding edges_match_def
    by (intro matched_push) (simp_all add: nr1_def)
  then have "edges_match (?g1\<lparr>m_nb1 := m_nb1 ?g1 @ [nbs @ [?r]]\<rparr>)"
    by (simp add: edges_match_def)
  from Cons.IH[OF this rest] show ?case .
qed

lemma edges_match_add1_range:
  assumes "edges_match g" "add1_range b g ns = Inr g'"
  shows "edges_match g'"
proof -
  from assms(2) obtain g1 nbs where l: "add1_loop b g ns [] 0 = Inr (g1, nbs)"
    and g': "g' = g1\<lparr>m_nb1 := m_nb1 g1 @ [nbs]\<rparr>"
    by (auto simp: add1_range_def split: sum.splits)
  from assms(1) have "edges_match (g\<lparr>m_nb1 := m_nb1 g @ [[]]\<rparr>)"
    by (simp add: edges_match_def matched_new_node)
  from edges_match_add1_loop[OF this l] g' show ?thesis by simp
qed

lemma edges_match_add2_loop:
  "edges_match (g\<lparr>m_nb2 := m_nb2 g @ [nbs]\<rparr>) \<Longrightarrow> add2_loop b g ns nbs it = Inr (g', nbs') \<Longrightarrow>
   edges_match (g'\<lparr>m_nb2 := m_nb2 g' @ [nbs']\<rparr>)"
proof (induction ns arbitrary: g nbs it)
  case Nil
  then show ?case by simp
next
  case (Cons n ns)
  let ?q = "\<lparr>iter = length (m_nb1 g ! n), node = nr2 g, dual = it\<rparr>"
  let ?r = "\<lparr>iter = it, node = n, dual = length (m_nb1 g ! n)\<rparr>"
  let ?g1 = "g\<lparr>m_nb1 := (m_nb1 g)[n := m_nb1 g ! n @ [?q]]\<rparr>"
  from Cons.prems(2) have n: "n < length (m_nb1 g)"
    and rest: "add2_loop b ?g1 ns (nbs @ [?r]) (Suc it) = Inr (g', nbs')"
    by (auto simp: Let_def nb1_def split: if_splits sum.splits)
  from Cons.prems(1) have "matched (m_nb2 g @ [nbs]) (m_nb1 g)"
    by (simp add: edges_match_def matched_sym)
  then have "matched ((m_nb2 g @ [nbs])[length (m_nb2 g) := (m_nb2 g @ [nbs]) ! length (m_nb2 g) @ [?r]])
          ((m_nb1 g)[n := m_nb1 g ! n @ [?q]])"
    using n by (intro matched_push) (simp_all add: nr2_def)
  then have "edges_match (?g1\<lparr>m_nb2 := m_nb2 ?g1 @ [nbs @ [?r]]\<rparr>)"
    by (simp add: edges_match_def matched_sym)
  from Cons.IH[OF this rest] show ?case .
qed

lemma edges_match_add2_range:
  assumes "edges_match g" "add2_range b g ns = Inr g'"
  shows "edges_match g'"
proof -
  from assms(2) obtain g1 nbs where l: "add2_loop b g ns [] 0 = Inr (g1, nbs)"
    and g': "g' = g1\<lparr>m_nb2 := m_nb2 g1 @ [nbs]\<rparr>"
    by (auto simp: add2_range_def split: sum.splits)
  from assms(1) have "edges_match (g\<lparr>m_nb2 := m_nb2 g @ [[]]\<rparr>)"
    by (simp add: edges_match_def matched_new_node matched_sym)
  from edges_match_add2_loop[OF this l] g' show ?thesis by simp
qed

lemma erase_incident1_result:
  "edges_match g \<Longrightarrow> m_nb1 g ! n1 = xs \<Longrightarrow> erase_incident1 b g n1 (map node xs) = Inr g' \<Longrightarrow>
   edges_match g' \<and> (xs \<noteq> [] \<longrightarrow> n1 < length (m_nb1 g)) \<and> length (m_nb1 g') = length (m_nb1 g) \<and>
   (n1 < length (m_nb1 g) \<longrightarrow> m_nb1 g' ! n1 = [])"
proof (induction xs arbitrary: g)
  case Nil
  then show ?case by simp
next
  case (Cons x xs)
  from Cons.prems(3) obtain g1 where g1: "eraseEdge b g n1 (node x) = Inr g1"
    "erase_incident1 b g1 n1 (map node xs) = Inr g'"
    by (auto split: sum.splits)
  note e = eraseEdge_Inr[OF g1(1)]
  from e Cons.prems(2) have x: "m_nb1 g1 ! n1 = xs" by simp
  from e have len: "length (m_nb1 g1) = length (m_nb1 g)" by simp
  from Cons.IH[OF edges_match_eraseEdge[OF Cons.prems(1) g1(1)] x g1(2)] e len
  show ?case by simp
qed

lemma erase_incident2_result:
  "edges_match g \<Longrightarrow> m_nb2 g ! n2 = xs \<Longrightarrow> erase_incident2 b g n2 (map node xs) = Inr g' \<Longrightarrow>
   edges_match g' \<and> length (m_nb2 g') = length (m_nb2 g) \<and>
   (n2 < length (m_nb2 g) \<longrightarrow> m_nb2 g' ! n2 = [])"
proof (induction xs arbitrary: g)
  case Nil
  then show ?case by simp
next
  case (Cons x xs)
  from Cons.prems(3) obtain g1 where g1: "eraseEdge b g (node x) n2 = Inr g1"
    "erase_incident2 b g1 n2 (map node xs) = Inr g'"
    by (auto split: sum.splits)
  note e = eraseEdge_Inr[OF g1(1)]
  from e Cons.prems(2) have x: "m_nb2 g1 ! n2 = xs" by simp
  from e have len: "length (m_nb2 g1) = length (m_nb2 g)" by simp
  from Cons.IH[OF edges_match_eraseEdge[OF Cons.prems(1) g1(1)] x g1(2)] e len
  show ?case by simp
qed

lemma edges_match_erase1:
  assumes "edges_match g" "erase1 b g n1 = Inr g'"
  shows "edges_match g'"
proof -
  from assms(2) obtain g1 where n: "n1 < nr1 g"
    and g1: "erase_incident1 b g n1 (map node (m_nb1 g ! n1)) = Inr g1"
    and g': "g' = g1\<lparr>m_nb1 := delete_slot n1 (m_nb1 g1),
                       m_nb2 := map (map (shift_down n1)) (m_nb2 g1)\<rparr>"
    by (auto simp: erase1_def split: if_splits sum.splits)
  from erase_incident1_result[OF assms(1) refl g1] n
  have "matched (m_nb1 g1) (m_nb2 g1)" "n1 < length (m_nb1 g1)" "m_nb1 g1 ! n1 = []"
    by (simp_all add: edges_match_def nr1_def)
  from matched_delete_slot[OF this] show ?thesis
    by (simp add: g' edges_match_def)
qed

lemma edges_match_erase2:
  assumes "edges_match g" "erase2 b g n2 = Inr g'"
  shows "edges_match g'"
proof -
  from assms(2) obtain g1 where n: "n2 < nr2 g"
    and g1: "erase_incident2 b g n2 (map node (m_nb2 g ! n2)) = Inr g1"
    and g': "g' = g1\<lparr>m_nb2 := delete_slot n2 (m_nb2 g1),
                       m_nb1 := map (map (shift_down n2)) (m_nb1 g1)\<rparr>"
    by (auto simp: erase2_def split: if_splits sum.splits)
  from erase_incident2_result[OF assms(1) refl g1] n
  have "matched (m_nb2 g1) (m_nb1 g1)" "n2 < length (m_nb2 g1)" "m_nb2 g1 ! n2 = []"
    by (simp_all add: edges_match_def nr2_def matched_sym)
  from matched_sym[OF matched_delete_slot[OF this]] show ?thesis
    by (simp add: g' edges_match_def)
qed

lemma edges_match_step:
  assumes "edges_match g" "step b g c = Inr g'"
  shows "edges_match g'"
proof (cases c)
  case Add1
  with assms show ?thesis by (auto simp: edges_match_add1)
next
  case Add2
  with assms show ?thesis by (auto simp: edges_match_add2)
next
  case (Add1Range ns)
  with assms show ?thesis by (auto intro: edges_match_add1_range)
next
  case (Add2Range ns)
  with assms show ?thesis by (auto intro: edges_match_add2_range)
next
  case (AddEdge n1 n2 check)
  with assms show ?thesis by (auto intro: edges_match_addEdge)
next
  case (EraseEdge n1 n2)
  with assms show ?thesis by (auto intro: edges_match_eraseEdge)
next
  case (Erase1 n)
  with assms show ?thesis by (auto intro: edges_match_erase1)
next
  case (Erase2 n)
  with assms show ?thesis by (auto intro: edges_match_erase2)
next
  case (Construct k1 k2 es)
  with assms show ?thesis by (auto intro: edges_match_construct)
next
  case IndexEdges
  with assms show ?thesis by (auto simp: indexEdges_def edges_match_def Let_def)
qed

lemma edges_match_run:
  "edges_match g \<Longrightarrow> run b g cs = Inr g' \<Longrightarrow> edges_match g'"
proof (induction cs arbitrary: g)
  case Nil
  then show ?case by simp
next
  case (Cons c cs)
  from Cons.prems(2) obtain g1 where g1: "step b g c = Inr g1" "run b g1 cs = Inr g'"
    by (auto split: sum.splits)
  from Cons.IH[OF edges_match_step[OF Cons.prems(1) g1(1)] g1(2)] show ?case .
qed

lemma example_graph_constructed:
  "construct plain_build BipartiteGraph_empty 3 2 example_edges = Inr example_graph"
  by (simp add: construct_def example_edges_def addEdge_def addEdge_push_def assert_fails_def
      plain_build_def BipartiteGraph_empty_def example_graph_def nr1_def nr2_def Let_def
      eval_nat_numeral)

text \<open>
  Claim C5. In every state reached from the default-constructed graph by calls of
  \<open>add1\<close>, \<open>add2\<close> (with or without neighbours), \<open>addEdge\<close>, \<open>eraseEdge\<close>, \<open>erase1\<close>,
  \<open>erase2\<close>, \<open>construct\<close> and \<open>indexEdges\<close>, \<open>nrEdges()\<close> returns the sum of the lengths of
  the neighbour lists of the nodes of type 1, and this sum equals the sum of the lengths
  of the neighbour lists of the nodes of type 2.
\<close>

theorem edge_count_symmetry:
  assumes "reachable b g"
  shows "nrEdges b g = Inr (sum_list (map length (m_nb1 g))) \<and>
         sum_list (map length (m_nb1 g)) = sum_list (map length (m_nb2 g))"
proof -
  from assms obtain cs where "run b BipartiteGraph_empty cs = Inr g"
    by (auto simp: reachable_def)
  from edges_match_run[OF edges_match_empty this] have "matched (m_nb1 g) (m_nb2 g)"
    by (simp add: edges_match_def)
  from matched_sums[OF this] show ?thesis
    by (simp add: nrEdges_sum)
qed

text \<open>
  The example graph after \<open>erase1(0)\<close>: two nodes of each type and four edges, counted
  from either side.
\<close>

theorem edge_count_symmetry_witness:
  "reachable plain_build
     (example_graph\<lparr>
        m_nb1 := [[\<lparr>iter = 0, node = 0, dual = 1\<rparr>, \<lparr>iter = 1, node = 1, dual = 0\<rparr>],
                  [\<lparr>iter = 0, node = 0, dual = 2\<rparr>, \<lparr>iter = 1, node = 1, dual = 1\<rparr>]],
        m_nb2 := [[\<lparr>iter = 1, node = 0, dual = 0\<rparr>, \<lparr>iter = 2, node = 1, dual = 0\<rparr>],
                  [\<lparr>iter = 0, node = 0, dual = 1\<rparr>, \<lparr>iter = 1, node = 1, dual = 1\<rparr>]]\<rparr>) \<and>
   nrEdges plain_build
     (example_graph\<lparr>
        m_nb1 := [[\<lparr>iter = 0, node = 0, dual = 1\<rparr>, \<lparr>iter = 1, node = 1, dual = 0\<rparr>],
                  [\<lparr>iter = 0, node = 0, dual = 2\<rparr>, \<lparr>iter = 1, node = 1, dual = 1\<rparr>]],
        m_nb2 := [[\<lparr>iter = 1, node = 0, dual = 0\<rparr>, \<lparr>iter = 2, node = 1, dual = 0\<rparr>],
                  [\<lparr>iter = 0, node = 0, dual = 1\<rparr>, \<lparr>iter = 1, node = 1, dual = 1\<rparr>]]\<rparr>) = Inr 4 \<and>
   sum_list (map length
     [[\<lparr>iter = 1, node = 0, dual = 0\<rparr>, \<lparr>iter = 2, node = 1, dual = 0\<rparr>],
      [\<lparr>iter = 0, node = 0, dual = 1\<rparr>, \<lparr>iter = 1, node = 1, dual = 1\<rparr>]]) = 4"
proof -
  let ?g = "example_graph\<lparr>
        m_nb1 := [[\<lparr>iter = 0, node = 0, dual = 1\<rparr>, \<lparr>iter = 1, node = 1, dual = 0\<rparr>],
                  [\<lparr>iter = 0, node = 0, dual = 2\<rparr>, \<lparr>iter = 1, node = 1, dual = 1\<rparr>]],
        m_nb2 := [[\<lparr>iter = 1, node = 0, dual = 0\<rparr>, \<lparr>iter = 2, node = 1, dual = 0\<rparr>],
                  [\<lparr>iter = 0, node = 0, dual = 1\<rparr>, \<lparr>iter = 1, node = 1, dual = 1\<rparr>]]\<rparr>"
  have e: "erase1 plain_build example_graph 0 = Inr ?g"
    by (simp add: erase1_def eraseEdge_def assert_fails_def plain_build_def example_graph_def
        nr1_def nr2_def delete_slot_def shift_down_def)
  have "run plain_build BipartiteGraph_empty [Construct 3 2 example_edges, Erase1 0] = Inr ?g"
    by (simp add: example_graph_constructed e)
  then have r: "reachable plain_build ?g"
    unfolding reachable_def by blast
  from edge_count_symmetry[OF r] r show ?thesis by simp
qed

subsection \<open>The traversal counts the edges\<close>






















text \<open>
  Without nodes there is no edge, and the edge count 0 is not \<open>nr1() + nr2() - 1\<close>: that
  is \<open>-1\<close> over the integers and \<open>2^64 - 1\<close> in the arithmetic of a 64-bit \<^verbatim>\<open>size_t\<close>.
\<close>

lemma no_nodes_no_edges:
  assumes "vertices g = []"
  shows "nr1 g = 0 \<and> nr2 g = 0 \<and> sum_list (map length (m_nb1 g)) = 0"
proof -
  from assms have z: "nr1 g = 0" "nr2 g = 0"
    by (simp_all add: vertices_def)
  then have "m_nb1 g = []" by (simp add: nr1_def)
  with z show ?thesis by simp
qed

lemma no_nodes_edge_count:
  assumes "vertices g = []"
  shows "nrEdges b g = Inr 0 \<and> int 0 \<noteq> int (nr1 g) + int (nr2 g) - 1 \<and>
         (0::nat) \<noteq> (nr1 g + nr2 g + 2 ^ 64 - 1) mod 2 ^ 64"
  using no_nodes_no_edges[OF assms] by (simp add: nrEdges_sum)






end
